theory Spec2Isabelle
  imports Main "HOL-Library.Sublist"
begin

section \<open>Data model (types.ts)\<close>

text \<open>
  Strings are lists of code units; the model covers code units below 256.
  A \<open>Blob\<close> is opaque binary data.
\<close>

datatype FileStatus = PENDING | RUNNING | COMPLETED | ERROR

datatype blob = Blob string

record ProgramFile =
  file_id :: string
  name :: string
  content :: string
  language :: string
  status :: FileStatus
  output_text :: "string option"
  imageBlob :: "blob option"

text \<open>
  The naming settings: the four state variables of the component, which are also the
  last four parameters of \<open>generateSubmissionZip\<close>.
\<close>

record NamingConfig =
  folderPattern :: string
  screenshotPattern :: string
  startIndex :: int
  isNumberingEnabled :: bool

section \<open>String primitives of the host language\<close>

text \<open>\<open>s.includes(sub)\<close>: \<open>sub\<close> occurs in \<open>s\<close> as a contiguous substring.\<close>

fun includes_str :: "string \<Rightarrow> string \<Rightarrow> bool" where
  "includes_str [] sub = (sub = [])"
| "includes_str (c # cs) sub = (prefix sub (c # cs) \<or> includes_str cs sub)"

text \<open>\<open>s.lastIndexOf(c)\<close> for a one-character search string: \<open>-1\<close> when absent.\<close>

fun lastIndexOf :: "string \<Rightarrow> char \<Rightarrow> int" where
  "lastIndexOf [] c = - 1"
| "lastIndexOf (x # xs) c =
     (let r = lastIndexOf xs c
      in if 0 \<le> r then r + 1 else if x = c then 0 else - 1)"

text \<open>
  \<open>s.substring(start, end)\<close>: negative arguments count as 0, arguments beyond the
  length count as the length, and the two are swapped when \<open>start > end\<close>.
\<close>

definition substring :: "string \<Rightarrow> int \<Rightarrow> int \<Rightarrow> string" where
  "substring s start end =
     (let a = min (nat start) (length s);
          b = min (nat end) (length s);
          lo = min a b;
          hi = max a b
      in take (hi - lo) (drop lo s))"

text \<open>\<open>s.split(c)\<close> for a one-character separator; the result is never empty.\<close>

fun split :: "string \<Rightarrow> char \<Rightarrow> string list" where
  "split [] c = [[]]"
| "split (x # xs) c =
     (if x = c then [] # split xs c
      else (case split xs c of
              [] \<Rightarrow> [[x]]
            | seg # segs \<Rightarrow> (x # seg) # segs))"

text \<open>\<open>arr.pop()\<close> read for its value: the last element, \<open>undefined\<close> on an empty array.\<close>

fun pop :: "'a list \<Rightarrow> 'a option" where
  "pop [] = None"
| "pop [x] = Some x"
| "pop (x # y # ys) = pop (y # ys)"

text \<open>\<open>a || b\<close> on strings: the empty string is falsy.\<close>

definition orElse :: "string \<Rightarrow> string \<Rightarrow> string" where
  "orElse a b = (if a = [] then b else a)"

text \<open>\<open>a || b\<close> where \<open>a\<close> may be \<open>undefined\<close>.\<close>

definition orElseOpt :: "string option \<Rightarrow> string \<Rightarrow> string" where
  "orElseOpt a b = (case a of None \<Rightarrow> b | Some s \<Rightarrow> orElse s b)"

text \<open>The decimal digits of a natural number, and the decimal text of an integer.\<close>

fun digits :: "nat \<Rightarrow> string" where
  "digits n =
     (if n < 10 then [''0123456789'' ! n]
      else digits (n div 10) @ [''0123456789'' ! (n mod 10)])"

declare digits.simps [simp del]

definition decimal :: "int \<Rightarrow> string" where
  "decimal n = (if n < 0 then CHR ''-'' # digits (nat (- n)) else digits (nat n))"

text \<open>
  \<open>(a + b).toString()\<close> for integer-valued numbers, given the exact sum \<open>n\<close>.  Numbers
  are doubles: up to \<open>Number.MAX_SAFE_INTEGER\<close> in absolute value the sum is exact and
  its text is its decimal digits.  Beyond that the sum is rounded to a double and the
  text is the host's shortest rendering of that double (an exponent form from
  \<open>1e21\<close> on); it is a function of the exact sum, taken as the parameter \<open>beyond\<close>.
\<close>

definition MAX_SAFE_INTEGER :: int where
  "MAX_SAFE_INTEGER = 9007199254740991"

definition toString :: "(int \<Rightarrow> string) \<Rightarrow> int \<Rightarrow> string" where
  "toString beyond n = (if \<bar>n\<bar> \<le> MAX_SAFE_INTEGER then decimal n else beyond n)"

section \<open>Global replacement of a placeholder\<close>

text \<open>
  All five regular expressions of \<open>formatName\<close> are a literal text followed by at
  most one optional character of a class: \<open>Regex lit cls\<close>.  \<open>matchAt\<close> is the length
  of the match at the start of the input, the optional character being greedy.
\<close>

datatype regex = Regex string "char \<Rightarrow> bool"

fun matchAt :: "regex \<Rightarrow> string \<Rightarrow> nat option" where
  "matchAt (Regex lit cls) s =
     (if prefix lit s then
        (case drop (length lit) s of
           [] \<Rightarrow> Some (length lit)
         | c # _ \<Rightarrow> if cls c then Some (length lit + 1) else Some (length lit))
      else None)"

text \<open>
  The replacement text is a template: \<open>$$\<close> is a dollar sign, \<open>$&\<close> the matched
  text, \<open>$`\<close> the input in front of the match and \<open>$'\<close> the input behind it.  The
  regular expressions have no capture groups, so every other \<open>$\<close> stands for itself.
\<close>

fun getSubstitution :: "string \<Rightarrow> string \<Rightarrow> string \<Rightarrow> string \<Rightarrow> string" where
  "getSubstitution matched pre post [] = []"
| "getSubstitution matched pre post [c] = [c]"
| "getSubstitution matched pre post (c # d # r) =
     (if c = CHR ''$'' \<and> d = CHR ''$'' then CHR ''$'' # getSubstitution matched pre post r
      else if c = CHR ''$'' \<and> d = CHR ''&'' then matched @ getSubstitution matched pre post r
      else if c = CHR ''$'' \<and> d = CHR 0x60 then pre @ getSubstitution matched pre post r
      else if c = CHR ''$'' \<and> d = CHR 0x27 then post @ getSubstitution matched pre post r
      else c # getSubstitution matched pre post (d # r))"

text \<open>
  \<open>str.replace(/rx/g, rep)\<close>, scanning from the left: \<open>pre\<close> is the input already
  passed, \<open>rest\<close> the input still to scan.  An empty match inserts the replacement and
  moves on by one character.
\<close>

function replaceFrom :: "regex \<Rightarrow> string \<Rightarrow> string \<Rightarrow> string \<Rightarrow> string" where
  "replaceFrom rx rep pre rest =
     (case matchAt rx rest of
        None \<Rightarrow>
          (case rest of
             [] \<Rightarrow> []
           | c # cs \<Rightarrow> c # replaceFrom rx rep (pre @ [c]) cs)
      | Some n \<Rightarrow>
          getSubstitution (take n rest) pre (drop n rest) rep @
          (if n = 0 then
             (case rest of
                [] \<Rightarrow> []
              | c # cs \<Rightarrow> c # replaceFrom rx rep (pre @ [c]) cs)
           else replaceFrom rx rep (pre @ take n rest) (drop n rest)))"
  by pat_completeness auto
termination
proof (relation "measure (\<lambda>(rx, rep, pre, rest). length rest)")
  fix rx :: regex and rep pre rest :: string and n :: nat
  assume m: "matchAt rx rest = Some n" and n: "n \<noteq> 0"
  from m have "n \<le> length rest"
    by (cases rx) (auto simp: prefix_def split: if_splits list.splits)
  with n have "rest \<noteq> []" by auto
  with n show "((rx, rep, pre @ take n rest, drop n rest), (rx, rep, pre, rest))
      \<in> measure (\<lambda>(rx, rep, pre, rest). length rest)"
    by simp
qed auto

declare replaceFrom.simps [simp del]

definition replaceAll :: "regex \<Rightarrow> string \<Rightarrow> string \<Rightarrow> string" where
  "replaceAll rx rep str = replaceFrom rx rep [] str"

section \<open>The naming engine (formatName)\<close>

definition noClass :: "char \<Rightarrow> bool" where
  "noClass c = False"

text \<open>The class \<open>[_\-\s]\<close>: underscore, hyphen, or a white-space character.\<close>

definition whiteSpace :: "char \<Rightarrow> bool" where
  "whiteSpace c = (c \<in> set [CHR 0x09, CHR 0x0A, CHR 0x0B, CHR 0x0C, CHR 0x0D, CHR 0x20, CHR 0xA0])"

definition separatorClass :: "char \<Rightarrow> bool" where
  "separatorClass c = (c = CHR ''_'' \<or> c = CHR ''-'' \<or> whiteSpace c)"

definition nameWithoutExt :: "ProgramFile \<Rightarrow> string" where
  "nameWithoutExt file =
     orElse (substring (name file) 0 (lastIndexOf (name file) CHR ''.'')) (name file)"

definition ext :: "ProgramFile \<Rightarrow> string" where
  "ext file = orElseOpt (pop (split (name file) CHR ''.'')) []"

text \<open>The first statement of \<open>formatName\<close>: the three chained replacements.\<close>

definition substNames :: "string \<Rightarrow> ProgramFile \<Rightarrow> string" where
  "substNames pattern file =
     replaceAll (Regex ''[full]'' noClass) (name file)
       (replaceAll (Regex ''[ext]'' noClass) (ext file)
          (replaceAll (Regex ''[name]'' noClass) (nameWithoutExt file) pattern))"

text \<open>The \<open>if (isNumberingEnabled)\<close> statement of \<open>formatName\<close>.\<close>

definition replaceIndex :: "(int \<Rightarrow> string) \<Rightarrow> NamingConfig \<Rightarrow> nat \<Rightarrow> string \<Rightarrow> string" where
  "replaceIndex beyond cfg index formatted =
     (if isNumberingEnabled cfg
      then replaceAll (Regex ''[index]'' noClass)
             (toString beyond (startIndex cfg + int index)) formatted
      else replaceAll (Regex ''[index]'' separatorClass) [] formatted)"

text \<open>
  \<open>formatName\<close>.  \<open>beyond\<close> is the host's text for a sum outside the safe integers
  (see \<open>toString\<close>); the settings are the variables the function closes over.
\<close>

definition formatName ::
  "(int \<Rightarrow> string) \<Rightarrow> NamingConfig \<Rightarrow> string \<Rightarrow> ProgramFile \<Rightarrow> nat \<Rightarrow> string" where
  "formatName beyond cfg pattern file index =
     replaceIndex beyond cfg index (substNames pattern file)"

section \<open>The remote output service and its errors\<close>

text \<open>
  A thrown value is inspected through five property paths and through \<open>String(err)\<close>.
  \<open>err_response_status\<close> is \<open>err?.response?.status\<close>, \<open>err_error_code\<close> is
  \<open>err?.error?.code\<close>, \<open>err_error_status\<close> is \<open>err?.error?.status\<close>; a missing
  object on the path gives \<open>JUndefined\<close>.
\<close>

datatype jsval = JUndefined | JNull | JNumber int | JString string | JObject

record ApiError =
  err_status :: jsval
  err_code :: jsval
  err_response_status :: jsval
  err_error_code :: jsval
  err_error_status :: jsval
  err_string :: string

text \<open>\<open>a ?? b\<close>: \<open>b\<close> when \<open>a\<close> is \<open>null\<close> or \<open>undefined\<close>.\<close>

definition nullish :: "jsval \<Rightarrow> jsval \<Rightarrow> jsval" where
  "nullish a b = (if a = JUndefined \<or> a = JNull then b else a)"

definition getErrorStatus :: "ApiError \<Rightarrow> int option" where
  "getErrorStatus error =
     (let direct =
        nullish (err_status error)
          (nullish (err_code error)
            (nullish (err_response_status error)
              (nullish (err_error_code error) (err_error_status error))))
      in case direct of JNumber n \<Rightarrow> Some n | _ \<Rightarrow> None)"

text \<open>
  The request of \<open>generateContent\<close>: the prompt and the system instruction are fixed
  texts chosen by \<open>isHtml\<close>, filled with the language and the content of the file.
\<close>

datatype request = Request bool string string

datatype element = Element string

text \<open>
  What the run does to the outside, in order: \<open>Process\<close> marks an invocation of
  \<open>processSingleFile\<close>, \<open>GenerateContent\<close> a call of the remote service, \<open>Sleep\<close> a
  suspension in milliseconds, \<open>ToPng\<close> a snapshot capture.
\<close>

datatype event = Process string | GenerateContent request | Sleep nat | ToPng element

text \<open>
  The collaborators answer as functions of everything that happened before the call.
  \<open>newClient\<close> is the constructor of the service client (\<open>Some e\<close>: it throws \<open>e\<close>);
  \<open>generateContent\<close> returns \<open>response.text\<close> (which may be undefined) or throws;
  \<open>terminalRefs\<close> is the element registered for a file id, if any;
  \<open>toPng\<close> stands for the capture with the two reads that turn it into a blob
  (\<open>None\<close>: one of them throws).
\<close>

record Env =
  newClient :: "event list \<Rightarrow> ApiError option"
  generateContent :: "event list \<Rightarrow> request \<Rightarrow> ApiError + string option"
  terminalRefs :: "event list \<Rightarrow> string \<Rightarrow> element option"
  toPng :: "event list \<Rightarrow> element \<Rightarrow> blob option"

section \<open>generateOutput: the retry loop and the diagnostics\<close>

definition maxAttempts :: nat where
  "maxAttempts = 4"

definition isRateLimited :: "ApiError \<Rightarrow> bool" where
  "isRateLimited err =
     (getErrorStatus err = Some 429 \<or> includes_str (err_string err) ''429''
      \<or> includes_str (err_string err) ''RESOURCE_EXHAUSTED'')"

text \<open>\<open>Math.round(1500 * Math.pow(2, attempt - 1))\<close>, an integer for every attempt.\<close>

definition delayMs :: "nat \<Rightarrow> nat" where
  "delayMs attempt = 1500 * 2 ^ (attempt - 1)"

definition noOutput :: "bool \<Rightarrow> string" where
  "noOutput isHtml = (if isHtml then ''Console was cleared.'' else ''No output generated.'')"

definition rateLimitMessage :: string where
  "rateLimitMessage =
     ''Execution Error: Gemini API quota/rate limit exceeded (429).'' @ [CHR 0x0A] @
     ''Fix: wait a bit, reduce batch size, or enable billing / increase quota in Google AI Studio.'' @ [CHR 0x0A] @
     ''Docs: https://ai.google.dev/gemini-api/docs/rate-limits''"

definition genericMessage :: string where
  "genericMessage = ''Execution Error: Failed to generate output via AI.''"

text \<open>
  The \<open>for\<close> loop over \<open>attempt\<close>.  \<open>Inl err\<close> is the \<open>throw err\<close> of the inner handler,
  \<open>Inr text\<close> the \<open>return\<close>; the last branch is the statement after the loop.
\<close>

function attemptLoop ::
  "Env \<Rightarrow> request \<Rightarrow> bool \<Rightarrow> nat \<Rightarrow> event list \<Rightarrow> (ApiError + string) \<times> event list" where
  "attemptLoop env req isHtml attempt tr =
     (if attempt \<le> maxAttempts then
        (case generateContent env tr req of
           Inr text \<Rightarrow> (Inr (orElseOpt text (noOutput isHtml)), tr @ [GenerateContent req])
         | Inl err \<Rightarrow>
             if \<not> isRateLimited err \<or> attempt = maxAttempts
             then (Inl err, tr @ [GenerateContent req])
             else attemptLoop env req isHtml (attempt + 1)
                    (tr @ [GenerateContent req, Sleep (delayMs attempt)]))
      else (Inr (noOutput isHtml), tr))"
  by pat_completeness auto
termination
  by (relation "measure (\<lambda>(env, req, isHtml, attempt, tr). maxAttempts + 1 - attempt)") auto

declare attemptLoop.simps [simp del]

text \<open>The outer handler: a thrown value becomes one of two fixed texts.\<close>

definition diagnostic :: "ApiError \<Rightarrow> string" where
  "diagnostic error =
     (if getErrorStatus error = Some 429 \<or> includes_str (err_string error) ''RESOURCE_EXHAUSTED''
      then rateLimitMessage else genericMessage)"

definition requestOf :: "ProgramFile \<Rightarrow> request" where
  "requestOf file = Request (language file = ''html'') (language file) (content file)"

definition generateOutput :: "Env \<Rightarrow> ProgramFile \<Rightarrow> event list \<Rightarrow> string \<times> event list" where
  "generateOutput env file tr =
     (let isHtml = (language file = ''html'')
      in case newClient env tr of
           Some error \<Rightarrow> (diagnostic error, tr)
         | None \<Rightarrow>
             (case attemptLoop env (requestOf file) isHtml 1 tr of
                (Inr text, tr') \<Rightarrow> (text, tr')
              | (Inl error, tr') \<Rightarrow> (diagnostic error, tr')))"

section \<open>The batch orchestrator\<close>

text \<open>The component state the run works on, with the events so far.\<close>

record AppState =
  files :: "ProgramFile list"
  isProcessing :: bool
  trace :: "event list"

definition setFiles :: "(ProgramFile list \<Rightarrow> ProgramFile list) \<Rightarrow> AppState \<Rightarrow> AppState" where
  "setFiles upd st = st\<lparr>files := upd (files st)\<rparr>"

definition sleep :: "nat \<Rightarrow> AppState \<Rightarrow> AppState" where
  "sleep ms st = st\<lparr>trace := trace st @ [Sleep ms]\<rparr>"

text \<open>\<open>prev.map(f => f.id === fileId ? {...f, <change>} : f)\<close>\<close>

definition updateFile :: "string \<Rightarrow> (ProgramFile \<Rightarrow> ProgramFile) \<Rightarrow> ProgramFile list \<Rightarrow> ProgramFile list" where
  "updateFile fileId change prev = map (\<lambda>f. if file_id f = fileId then change f else f) prev"

text \<open>Step 1 of \<open>processSingleFile\<close>.\<close>

definition markRunning :: "string \<Rightarrow> AppState \<Rightarrow> AppState" where
  "markRunning fileId st =
     setFiles (updateFile fileId (\<lambda>f. f\<lparr>status := RUNNING\<rparr>))
       (st\<lparr>trace := trace st @ [Process fileId]\<rparr>)"

text \<open>Steps 3 and 4: generate the output, attach it and mark the file completed.\<close>

definition attachOutput :: "Env \<Rightarrow> ProgramFile \<Rightarrow> string \<Rightarrow> AppState \<Rightarrow> AppState" where
  "attachOutput env file fileId st =
     (case generateOutput env file (trace st) of
        (out, tr') \<Rightarrow>
          setFiles (updateFile fileId (\<lambda>f. f\<lparr>output_text := Some out, status := COMPLETED\<rparr>))
            (st\<lparr>trace := tr'\<rparr>))"

text \<open>Steps 5 and 6: the settle delay, then the capture when an element is registered.\<close>

definition captureScreenshot :: "Env \<Rightarrow> string \<Rightarrow> AppState \<Rightarrow> AppState" where
  "captureScreenshot env fileId st =
     (let st1 = sleep 800 st
      in case terminalRefs env (trace st1) fileId of
           None \<Rightarrow> st1
         | Some terminalEl \<Rightarrow>
             (case toPng env (trace st1) terminalEl of
                Some b \<Rightarrow>
                  setFiles (updateFile fileId (\<lambda>f. f\<lparr>imageBlob := Some b\<rparr>))
                    (st1\<lparr>trace := trace st1 @ [ToPng terminalEl]\<rparr>)
              | None \<Rightarrow>
                  setFiles (updateFile fileId (\<lambda>f. f\<lparr>status := ERROR\<rparr>))
                    (st1\<lparr>trace := trace st1 @ [ToPng terminalEl]\<rparr>)))"

text \<open>
  \<open>processSingleFile\<close>.  \<open>snapshot\<close> is the list \<open>files\<close> captured by the closure: the
  file data sent to the service is read from it, the updates go to the current state.
\<close>

definition processSingleFile :: "Env \<Rightarrow> ProgramFile list \<Rightarrow> string \<Rightarrow> AppState \<Rightarrow> AppState" where
  "processSingleFile env snapshot fileId st =
     (let st1 = markRunning fileId st
      in case find (\<lambda>f. file_id f = fileId) snapshot of
           None \<Rightarrow> st1
         | Some file \<Rightarrow> captureScreenshot env fileId (attachOutput env file fileId st1))"

text \<open>The \<open>for (const file of filesToProcess)\<close> loop of \<open>processAll\<close>.\<close>

fun processLoop :: "Env \<Rightarrow> ProgramFile list \<Rightarrow> ProgramFile list \<Rightarrow> AppState \<Rightarrow> AppState" where
  "processLoop env snapshot [] st = st"
| "processLoop env snapshot (file # rest) st =
     processLoop env snapshot rest (sleep 700 (processSingleFile env snapshot (file_id file) st))"

definition processAll :: "Env \<Rightarrow> AppState \<Rightarrow> AppState" where
  "processAll env st =
     (if isProcessing st then st
      else
        (let st1 = st\<lparr>isProcessing := True\<rparr>;
             filesToProcess = filter (\<lambda>f. status f \<noteq> COMPLETED) (files st);
             st2 = processLoop env (files st) filesToProcess st1
         in st2\<lparr>isProcessing := False\<rparr>))"

section \<open>Reference definitions for the statements\<close>

text \<open>
  The events of \<open>n\<close> attempts as the retry policy is specified: attempt 1 at once, and
  attempt \<open>k \<ge> 2\<close> after a suspension of \<open>1500 * 2^(k-2)\<close> milliseconds.
\<close>

primrec spec_retryTrace :: "request \<Rightarrow> nat \<Rightarrow> event list" where
  "spec_retryTrace req 0 = []"
| "spec_retryTrace req (Suc n) =
     (if n = 0 then [] else spec_retryTrace req n @ [Sleep (1500 * 2 ^ (n - 1))])
     @ [GenerateContent req]"

text \<open>The events in front of the \<open>k\<close>-th call of the service.\<close>

definition spec_beforeAttempt :: "request \<Rightarrow> nat \<Rightarrow> event list" where
  "spec_beforeAttempt req k = butlast (spec_retryTrace req k)"

text \<open>The answer of the service to the \<open>k\<close>-th call of a run that started after \<open>tr\<close>.\<close>

definition answerAt :: "Env \<Rightarrow> event list \<Rightarrow> request \<Rightarrow> nat \<Rightarrow> ApiError + string option" where
  "answerAt env tr req k = generateContent env (tr @ spec_beforeAttempt req k) req"

fun isGenerateContent :: "event \<Rightarrow> bool" where
  "isGenerateContent (GenerateContent req) = True"
| "isGenerateContent e = False"

fun isToPng :: "event \<Rightarrow> bool" where
  "isToPng (ToPng el) = True"
| "isToPng e = False"

text \<open>The number of calls of the service, and of captures, in a list of events.\<close>

definition attemptsOf :: "event list \<Rightarrow> nat" where
  "attemptsOf evs = length (filter isGenerateContent evs)"

definition capturesOf :: "event list \<Rightarrow> nat" where
  "capturesOf evs = length (filter isToPng evs)"

text \<open>The suspensions requested, in order.\<close>

fun delaysOf :: "event list \<Rightarrow> nat list" where
  "delaysOf [] = []"
| "delaysOf (Sleep ms # evs) = ms # delaysOf evs"
| "delaysOf (e # evs) = delaysOf evs"

text \<open>The file ids \<open>processSingleFile\<close> was invoked with, in order.\<close>

fun processedIds :: "event list \<Rightarrow> string list" where
  "processedIds [] = []"
| "processedIds (Process fileId # evs) = fileId # processedIds evs"
| "processedIds (e # evs) = processedIds evs"

text \<open>
  What the capture step of \<open>processSingleFile\<close> finds when it looks the element up after
  the events \<open>tr\<close>: no element, a captured blob, or a capture that throws.
\<close>

datatype capture_outcome = NoElement | Captured blob | CaptureFailed

definition captureResult :: "Env \<Rightarrow> event list \<Rightarrow> string \<Rightarrow> capture_outcome" where
  "captureResult env tr fileId =
     (case terminalRefs env tr fileId of
        None \<Rightarrow> NoElement
      | Some terminalEl \<Rightarrow>
          (case toPng env tr terminalEl of
             Some b \<Rightarrow> Captured b
           | None \<Rightarrow> CaptureFailed))"

text \<open>
  The output \<open>processSingleFile\<close> obtains for a file, and the events up to the moment it
  looks the element up, when it starts in state \<open>st\<close>.
\<close>

definition generatedOutput :: "Env \<Rightarrow> ProgramFile \<Rightarrow> string \<Rightarrow> AppState \<Rightarrow> string" where
  "generatedOutput env file fileId st = fst (generateOutput env file (trace st @ [Process fileId]))"

definition captureTime :: "Env \<Rightarrow> ProgramFile \<Rightarrow> string \<Rightarrow> AppState \<Rightarrow> event list" where
  "captureTime env file fileId st =
     snd (generateOutput env file (trace st @ [Process fileId])) @ [Sleep 800]"

text \<open>
  The events of the turn of one file in a batch run, as the orchestrator is specified:
  the start of the turn, \<open>n\<close> attempts for the request of this file with their
  backoff, the settle delay of 800 ms, the capture events \<open>c\<close>, the pacing delay of
  700 ms.
\<close>

definition spec_fileRun :: "ProgramFile \<Rightarrow> nat \<Rightarrow> event list \<Rightarrow> event list" where
  "spec_fileRun f n c =
     [Process (file_id f)] @ spec_retryTrace (requestOf f) n @ [Sleep 800] @ c @ [Sleep 700]"

text \<open>
  The state in which a batch run that starts in \<open>st\<close> reaches the file \<open>f\<close>: the run is
  marked as in progress and the unfinished files in front of \<open>f\<close> have had their turn.
  \<open>filesBehind\<close> are the unfinished files that follow \<open>f\<close>.
\<close>

definition stateAtTurn :: "Env \<Rightarrow> AppState \<Rightarrow> ProgramFile \<Rightarrow> AppState" where
  "stateAtTurn env st f =
     processLoop env (files st)
       (takeWhile (\<lambda>y. file_id y \<noteq> file_id f) (filter (\<lambda>f. status f \<noteq> COMPLETED) (files st)))
       (st\<lparr>isProcessing := True\<rparr>)"

definition filesBehind :: "AppState \<Rightarrow> ProgramFile \<Rightarrow> ProgramFile list" where
  "filesBehind st f =
     tl (dropWhile (\<lambda>y. file_id y \<noteq> file_id f) (filter (\<lambda>f. status f \<noteq> COMPLETED) (files st)))"

text \<open>
  A file as \<open>processSingleFile\<close> leaves it, given the output obtained and what the
  capture step found.
\<close>

definition processedFile :: "string \<Rightarrow> capture_outcome \<Rightarrow> ProgramFile \<Rightarrow> ProgramFile" where
  "processedFile out cr f =
     f\<lparr>status := (case cr of CaptureFailed \<Rightarrow> ERROR | _ \<Rightarrow> COMPLETED),
       output_text := Some out,
       imageBlob := (case cr of Captured b \<Rightarrow> Some b | _ \<Rightarrow> imageBlob f)\<rparr>"


section \<open>Example data\<close>

definition exampleFile :: "string \<Rightarrow> string \<Rightarrow> ProgramFile" where
  "exampleFile fileId fileName =
     \<lparr>file_id = fileId, name = fileName, content = ''print(1)'', language = ''py'',
      status = PENDING, output_text = None, imageBlob = None\<rparr>"

text \<open>A file that a run has completed without an image.\<close>

definition completedFile :: "string \<Rightarrow> ProgramFile" where
  "completedFile fileId =
     (exampleFile fileId (fileId @ ''.py''))\<lparr>status := COMPLETED, output_text := Some ''hello''\<rparr>"

definition defaultConfig :: NamingConfig where
  "defaultConfig =
     \<lparr>folderPattern = ''[index]_[name]'', screenshotPattern = ''[name]_output'',
      startIndex = 1, isNumberingEnabled = True\<rparr>"

text \<open>An error that carries its status only in its text.\<close>

definition textOnly429 :: ApiError where
  "textOnly429 =
     \<lparr>err_status = JUndefined, err_code = JUndefined, err_response_status = JUndefined,
      err_error_code = JUndefined, err_error_status = JUndefined,
      err_string = ''Error: HTTP 429 Too Many Requests''\<rparr>"

definition status429 :: ApiError where
  "status429 =
     \<lparr>err_status = JNumber 429, err_code = JUndefined, err_response_status = JUndefined,
      err_error_code = JUndefined, err_error_status = JUndefined,
      err_string = ''ApiError: quota exceeded''\<rparr>"

definition status500 :: ApiError where
  "status500 =
     \<lparr>err_status = JNumber 500, err_code = JUndefined, err_response_status = JUndefined,
      err_error_code = JUndefined, err_error_status = JUndefined,
      err_string = ''ApiError: internal error''\<rparr>"

text \<open>
  A service that throws \<open>e\<close> on its first \<open>n\<close> calls and answers \<open>answer\<close> afterwards;
  every file id has an element, and the capture of the elements in \<open>failing\<close> throws.
\<close>

definition scriptedEnv :: "nat \<Rightarrow> ApiError \<Rightarrow> string option \<Rightarrow> element list \<Rightarrow> Env" where
  "scriptedEnv n e answer failing =
     \<lparr>newClient = (\<lambda>tr. None),
      generateContent = (\<lambda>tr req. if attemptsOf tr < n then Inl e else Inr answer),
      terminalRefs = (\<lambda>tr fileId. Some (Element fileId)),
      toPng = (\<lambda>tr el. if el \<in> set failing then None else Some (Blob ''png''))\<rparr>"

text \<open>A state with the given files, no run in progress and nothing done yet.\<close>

definition initialState :: "ProgramFile list \<Rightarrow> AppState" where
  "initialState fs = \<lparr>files = fs, isProcessing = False, trace = []\<rparr>"

text \<open>Five uploaded files; the capture of the third one throws.\<close>

definition fiveFiles :: AppState where
  "fiveFiles =
     initialState [exampleFile ''f1'' ''a.py'', exampleFile ''f2'' ''b.py'', exampleFile ''f3'' ''c.py'',
       exampleFile ''f4'' ''d.py'', exampleFile ''f5'' ''e.py'']"

text \<open>Two finished and two uploaded files, mixed.\<close>

definition mixedFiles :: AppState where
  "mixedFiles =
     initialState [completedFile ''f1'', exampleFile ''f2'' ''b.py'', completedFile ''f3'',
       exampleFile ''f4'' ''d.py'']"

definition twoFiles :: AppState where
  "twoFiles = initialState [exampleFile ''f1'' ''a.py'', exampleFile ''f2'' ''b.py'']"

definition thirdFailsEnv :: Env where
  "thirdFailsEnv = scriptedEnv 0 status429 (Some ''hello'') [Element ''f3'']"

text \<open>Only the first capture of a run throws, whichever element it is made for.\<close>

definition firstCaptureFailsEnv :: Env where
  "firstCaptureFailsEnv =
     \<lparr>newClient = (\<lambda>tr. None),
      generateContent = (\<lambda>tr req. Inr (Some ''hello'')),
      terminalRefs = (\<lambda>tr fileId. Some (Element fileId)),
      toPng = (\<lambda>tr el. if capturesOf tr = 0 then None else Some (Blob ''png''))\<rparr>"

text \<open>No file id has an element registered.\<close>

definition noElementEnv :: Env where
  "noElementEnv =
     \<lparr>newClient = (\<lambda>tr. None),
      generateContent = (\<lambda>tr req. Inr (Some ''hello'')),
      terminalRefs = (\<lambda>tr fileId. None),
      toPng = (\<lambda>tr el. Some (Blob ''png''))\<rparr>"

text \<open>A service whose first answer is a response with an empty text.\<close>

definition emptyAnswerEnv :: Env where
  "emptyAnswerEnv = scriptedEnv 0 status500 (Some []) []"

text \<open>A service that throws a status 429 error on its first \<open>n\<close> calls and \<open>e\<close> afterwards.\<close>

definition rateLimitedThenEnv :: "nat \<Rightarrow> ApiError \<Rightarrow> Env" where
  "rateLimitedThenEnv n e =
     \<lparr>newClient = (\<lambda>tr. None),
      generateContent = (\<lambda>tr req. if attemptsOf tr < n then Inl status429 else Inl e),
      terminalRefs = (\<lambda>tr fileId. Some (Element fileId)),
      toPng = (\<lambda>tr el. Some (Blob ''png''))\<rparr>"

text \<open>A service that throws \<open>e\<close> on every call.\<close>

definition failingEnv :: "ApiError \<Rightarrow> Env" where
  "failingEnv e =
     \<lparr>newClient = (\<lambda>tr. None),
      generateContent = (\<lambda>tr req. Inl e),
      terminalRefs = (\<lambda>tr fileId. Some (Element fileId)),
      toPng = (\<lambda>tr el. Some (Blob ''png''))\<rparr>"

section \<open>The retry loop\<close>

lemma attemptsOf_append: "attemptsOf (xs @ ys) = attemptsOf xs + attemptsOf ys"
  by (simp add: attemptsOf_def)

lemma attemptsOf_retryTrace: "attemptsOf (spec_retryTrace req n) = n"
  by (induction n) (auto simp: attemptsOf_def)

lemma delaysOf_append: "delaysOf (xs @ ys) = delaysOf xs @ delaysOf ys"
  by (induction xs rule: delaysOf.induct) auto

lemma delaysOf_retryTrace:
  "delaysOf (spec_retryTrace req n) = map (\<lambda>k. 1500 * 2 ^ (k - 2)) [2..<Suc n]"
proof (induction n)
  case 0
  show ?case by simp
next
  case (Suc n)
  show ?case
  proof (cases "n = 0")
    case True
    then show ?thesis by simp
  next
    case False
    then obtain m where m: "n = Suc m" by (cases n) auto
    with Suc show ?thesis by (simp add: delaysOf_append)
  qed
qed

lemma beforeAttempt_Suc:
  "0 < k \<Longrightarrow> spec_beforeAttempt req (Suc k) = spec_retryTrace req k @ [Sleep (delayMs k)]"
  by (simp add: spec_beforeAttempt_def delayMs_def butlast_append)

lemma beforeAttempt_1: "spec_beforeAttempt req (Suc 0) = []"
  by (simp add: spec_beforeAttempt_def)

lemma retryTrace_before: "0 < k \<Longrightarrow> spec_retryTrace req k = spec_beforeAttempt req k @ [GenerateContent req]"
  by (cases k) (simp_all add: spec_beforeAttempt_def)

lemma attemptLoop_unfold:
  "a \<le> maxAttempts \<Longrightarrow> attemptLoop env req h a tr =
     (case generateContent env tr req of
        Inr text \<Rightarrow> (Inr (orElseOpt text (noOutput h)), tr @ [GenerateContent req])
      | Inl err \<Rightarrow>
          if \<not> isRateLimited err \<or> a = maxAttempts
          then (Inl err, tr @ [GenerateContent req])
          else attemptLoop env req h (a + 1) (tr @ [GenerateContent req, Sleep (delayMs a)]))"
  by (subst attemptLoop.simps) simp

lemma attemptLoop_spec:
  assumes "0 < a" "a \<le> maxAttempts"
  shows "\<exists>n. a \<le> n \<and> n \<le> maxAttempts \<and>
     snd (attemptLoop env req h a (tr @ spec_beforeAttempt req a)) = tr @ spec_retryTrace req n \<and>
     (\<forall>k. a \<le> k \<and> k < n \<longrightarrow> (\<exists>e. answerAt env tr req k = Inl e \<and> isRateLimited e)) \<and>
     (\<forall>answer. answerAt env tr req n = Inr answer \<longrightarrow>
        fst (attemptLoop env req h a (tr @ spec_beforeAttempt req a)) = Inr (orElseOpt answer (noOutput h))) \<and>
     (\<forall>e. answerAt env tr req n = Inl e \<longrightarrow>
        fst (attemptLoop env req h a (tr @ spec_beforeAttempt req a)) = Inl e \<and>
        (\<not> isRateLimited e \<or> n = maxAttempts))"
  using assms
proof (induction d \<equiv> "maxAttempts - a" arbitrary: a)
  case 0
  then have a: "a = maxAttempts" by simp
  have pos: "0 < maxAttempts" by (simp add: maxAttempts_def)
  have val: "attemptLoop env req h maxAttempts (tr @ spec_beforeAttempt req maxAttempts) =
     (case answerAt env tr req maxAttempts of
        Inr answer \<Rightarrow> (Inr (orElseOpt answer (noOutput h)), tr @ spec_retryTrace req maxAttempts)
      | Inl err \<Rightarrow> (Inl err, tr @ spec_retryTrace req maxAttempts))"
    using pos
    by (simp add: attemptLoop_unfold answerAt_def retryTrace_before split: sum.splits)
  show ?case
    unfolding a by (rule exI [of _ maxAttempts]) (auto simp: val split: sum.splits)
next
  case (Suc d)
  then have lt: "a < maxAttempts" by simp
  have unf: "attemptLoop env req h a (tr @ spec_beforeAttempt req a) =
     (case answerAt env tr req a of
        Inr answer \<Rightarrow> (Inr (orElseOpt answer (noOutput h)), tr @ spec_retryTrace req a)
      | Inl err \<Rightarrow>
          if \<not> isRateLimited err then (Inl err, tr @ spec_retryTrace req a)
          else attemptLoop env req h (Suc a) (tr @ spec_beforeAttempt req (Suc a)))"
    using lt \<open>0 < a\<close>
    by (simp add: attemptLoop_unfold [of a] answerAt_def retryTrace_before beforeAttempt_Suc split: sum.splits)
  show ?case
  proof (cases "answerAt env tr req a")
    case (Inr answer)
    show ?thesis
      using lt by (intro exI [of _ a]) (auto simp: unf Inr)
  next
    case (Inl e)
    show ?thesis
    proof (cases "isRateLimited e")
      case False
      show ?thesis
        using lt by (intro exI [of _ a]) (auto simp: unf Inl False)
    next
      case True
      have step: "attemptLoop env req h a (tr @ spec_beforeAttempt req a)
          = attemptLoop env req h (Suc a) (tr @ spec_beforeAttempt req (Suc a))"
        by (simp add: unf Inl True)
      from Suc.hyps(2) lt have d: "d = maxAttempts - Suc a" by simp
      from Suc.hyps(1) [OF d] lt
      obtain n where n: "Suc a \<le> n" "n \<le> maxAttempts"
        "snd (attemptLoop env req h (Suc a) (tr @ spec_beforeAttempt req (Suc a))) = tr @ spec_retryTrace req n"
        "\<forall>k. Suc a \<le> k \<and> k < n \<longrightarrow> (\<exists>e. answerAt env tr req k = Inl e \<and> isRateLimited e)"
        "\<forall>answer. answerAt env tr req n = Inr answer \<longrightarrow>
           fst (attemptLoop env req h (Suc a) (tr @ spec_beforeAttempt req (Suc a))) = Inr (orElseOpt answer (noOutput h))"
        "\<forall>e. answerAt env tr req n = Inl e \<longrightarrow>
           fst (attemptLoop env req h (Suc a) (tr @ spec_beforeAttempt req (Suc a))) = Inl e \<and>
           (\<not> isRateLimited e \<or> n = maxAttempts)"
        by auto
      have "\<forall>k. a \<le> k \<and> k < n \<longrightarrow> (\<exists>e. answerAt env tr req k = Inl e \<and> isRateLimited e)"
      proof (intro allI impI)
        fix k assume "a \<le> k \<and> k < n"
        then consider "k = a" | "Suc a \<le> k \<and> k < n" by force
        then show "\<exists>e. answerAt env tr req k = Inl e \<and> isRateLimited e"
          using Inl True n(4) by cases auto
      qed
      with n show ?thesis
        unfolding step by (intro exI [of _ n]) auto
    qed
  qed
qed

lemma generateOutput_cases:
  "(\<exists>e. newClient env tr = Some e \<and> generateOutput env file tr = (diagnostic e, tr)) \<or>
   (newClient env tr = None \<and> (\<exists>n. 0 < n \<and> n \<le> maxAttempts \<and>
     snd (generateOutput env file tr) = tr @ spec_retryTrace (requestOf file) n \<and>
     (\<forall>k. 0 < k \<and> k < n \<longrightarrow> (\<exists>e. answerAt env tr (requestOf file) k = Inl e \<and> isRateLimited e)) \<and>
     (\<forall>answer. answerAt env tr (requestOf file) n = Inr answer \<longrightarrow>
        fst (generateOutput env file tr) = orElseOpt answer (noOutput (language file = ''html''))) \<and>
     (\<forall>e. answerAt env tr (requestOf file) n = Inl e \<longrightarrow>
        fst (generateOutput env file tr) = diagnostic e \<and> (\<not> isRateLimited e \<or> n = maxAttempts))))"
proof (cases "newClient env tr")
  case (Some e)
  then show ?thesis by (simp add: generateOutput_def)
next
  case None
  have pos: "0 < Suc 0" "Suc 0 \<le> maxAttempts" by (simp_all add: maxAttempts_def)
  from attemptLoop_spec [OF pos, of env "requestOf file" "language file = ''html''" tr]
  obtain n where n: "Suc 0 \<le> n" "n \<le> maxAttempts"
    "snd (attemptLoop env (requestOf file) (language file = ''html'') (Suc 0) tr) = tr @ spec_retryTrace (requestOf file) n"
    "\<forall>k. Suc 0 \<le> k \<and> k < n \<longrightarrow> (\<exists>e. answerAt env tr (requestOf file) k = Inl e \<and> isRateLimited e)"
    "\<forall>answer. answerAt env tr (requestOf file) n = Inr answer \<longrightarrow>
       fst (attemptLoop env (requestOf file) (language file = ''html'') (Suc 0) tr) = Inr (orElseOpt answer (noOutput (language file = ''html'')))"
    "\<forall>e. answerAt env tr (requestOf file) n = Inl e \<longrightarrow>
       fst (attemptLoop env (requestOf file) (language file = ''html'') (Suc 0) tr) = Inl e \<and> (\<not> isRateLimited e \<or> n = maxAttempts)"
    by (auto simp: beforeAttempt_1)
  obtain r tr' where loop: "attemptLoop env (requestOf file) (language file = ''html'') (Suc 0) tr = (r, tr')"
    by (cases "attemptLoop env (requestOf file) (language file = ''html'') (Suc 0) tr")
  have go: "generateOutput env file tr = (case r of Inr answer \<Rightarrow> (answer, tr') | Inl e \<Rightarrow> (diagnostic e, tr'))"
    using None loop by (simp add: generateOutput_def split: sum.splits)
  have "snd (generateOutput env file tr) = tr @ spec_retryTrace (requestOf file) n"
    using n(3) loop by (simp add: go split: sum.splits)
  moreover have "\<forall>answer. answerAt env tr (requestOf file) n = Inr answer \<longrightarrow>
        fst (generateOutput env file tr) = orElseOpt answer (noOutput (language file = ''html''))"
    using n(5) loop by (auto simp: go split: sum.splits)
  moreover have "\<forall>e. answerAt env tr (requestOf file) n = Inl e \<longrightarrow>
        fst (generateOutput env file tr) = diagnostic e \<and> (\<not> isRateLimited e \<or> n = maxAttempts)"
    using n(6) loop by (auto simp: go split: sum.splits)
  ultimately show ?thesis
    using None n(1,2,4) by (intro disjI2 conjI exI [of _ n]) auto
qed


section \<open>What one file run does to the state\<close>

lemma updateFile_twice:
  "(\<And>f. file_id (c1 f) = file_id f) \<Longrightarrow>
   updateFile i c2 (updateFile i c1 fs) = updateFile i (\<lambda>f. c2 (c1 f)) fs"
  by (simp add: updateFile_def)

lemma files_sleep [simp]: "files (sleep ms st) = files st"
  by (simp add: sleep_def)

lemma trace_sleep [simp]: "trace (sleep ms st) = trace st @ [Sleep ms]"
  by (simp add: sleep_def)

lemma isProcessing_sleep [simp]: "isProcessing (sleep ms st) = isProcessing st"
  by (simp add: sleep_def)

lemma files_markRunning:
  "files (markRunning i st) = updateFile i (\<lambda>f. f\<lparr>status := RUNNING\<rparr>) (files st)"
  by (simp add: markRunning_def setFiles_def)

lemma trace_markRunning: "trace (markRunning i st) = trace st @ [Process i]"
  by (simp add: markRunning_def setFiles_def)

lemma files_attachOutput:
  "files (attachOutput env file i st) =
     updateFile i (\<lambda>f. f\<lparr>output_text := Some (fst (generateOutput env file (trace st))), status := COMPLETED\<rparr>) (files st)"
  by (simp add: attachOutput_def setFiles_def split: prod.splits)

lemma trace_attachOutput:
  "trace (attachOutput env file i st) = snd (generateOutput env file (trace st))"
  by (simp add: attachOutput_def setFiles_def split: prod.splits)

lemma files_captureScreenshot:
  "files (captureScreenshot env i st) =
     (case captureResult env (trace st @ [Sleep 800]) i of
        NoElement \<Rightarrow> files st
      | Captured b \<Rightarrow> updateFile i (\<lambda>f. f\<lparr>imageBlob := Some b\<rparr>) (files st)
      | CaptureFailed \<Rightarrow> updateFile i (\<lambda>f. f\<lparr>status := ERROR\<rparr>) (files st))"
  by (simp add: captureScreenshot_def captureResult_def setFiles_def Let_def split: option.splits)

lemma trace_captureScreenshot:
  "trace (captureScreenshot env i st) =
     trace st @ [Sleep 800] @
     (case terminalRefs env (trace st @ [Sleep 800]) i of None \<Rightarrow> [] | Some el \<Rightarrow> [ToPng el])"
  by (simp add: captureScreenshot_def setFiles_def Let_def split: option.splits)

lemma files_processSingleFile:
  assumes "find (\<lambda>f. file_id f = i) snapshot = Some file"
  shows "files (processSingleFile env snapshot i st) =
     updateFile i (processedFile (generatedOutput env file i st)
        (captureResult env (captureTime env file i st) i)) (files st)"
  using assms
  by (cases "captureResult env (captureTime env file i st) i")
     (simp_all add: processSingleFile_def files_captureScreenshot files_attachOutput
        files_markRunning trace_attachOutput trace_markRunning updateFile_twice
        captureTime_def generatedOutput_def processedFile_def updateFile_def)

lemma trace_processSingleFile:
  assumes "find (\<lambda>f. file_id f = i) snapshot = Some file"
  shows "trace (processSingleFile env snapshot i st) =
     captureTime env file i st @
     (case terminalRefs env (captureTime env file i st) i of None \<Rightarrow> [] | Some el \<Rightarrow> [ToPng el])"
  using assms
  by (simp add: processSingleFile_def trace_captureScreenshot trace_attachOutput
        trace_markRunning captureTime_def)


lemma updateFile_member:
  assumes "g \<in> set (updateFile i c fs)" "file_id g = i" "\<And>f. file_id (c f) = file_id f"
  shows "\<exists>f\<in>set fs. file_id f = i \<and> g = c f"
  using assms by (auto simp: updateFile_def split: if_splits)

lemma file_id_processedFile [simp]: "file_id (processedFile out cr f) = file_id f"
  by (simp add: processedFile_def)

lemma nullish_neq: "a \<noteq> v \<Longrightarrow> b \<noteq> v \<Longrightarrow> nullish a b \<noteq> v"
  by (simp add: nullish_def)

lemma no_sign_not_rate_limited:
  assumes "err_status e \<noteq> JNumber 429" "err_code e \<noteq> JNumber 429"
    "err_response_status e \<noteq> JNumber 429" "err_error_code e \<noteq> JNumber 429"
    "err_error_status e \<noteq> JNumber 429"
  shows "getErrorStatus e \<noteq> Some 429"
proof -
  let ?direct = "nullish (err_status e) (nullish (err_code e) (nullish (err_response_status e)
     (nullish (err_error_code e) (err_error_status e))))"
  from assms have "?direct \<noteq> JNumber 429"
    by (intro nullish_neq)
  then show ?thesis
    by (cases ?direct) (simp_all add: getErrorStatus_def Let_def)
qed

lemma generateOutput_first_failure:
  assumes "newClient env tr = None" "generateContent env tr (requestOf file) = Inl e"
    "\<not> isRateLimited e"
  shows "generateOutput env file tr = (diagnostic e, tr @ [GenerateContent (requestOf file)])"
proof -
  have "Suc 0 \<le> maxAttempts" by (simp add: maxAttempts_def)
  from attemptLoop_unfold [OF this, of env "requestOf file" "language file = ''html''" tr] assms(2,3)
  have "attemptLoop env (requestOf file) (language file = ''html'') 1 tr
      = (Inl e, tr @ [GenerateContent (requestOf file)])"
    by simp
  with assms(1) show ?thesis by (simp add: generateOutput_def)
qed



section \<open>The events of a batch run\<close>

lemma capturesOf_append: "capturesOf (xs @ ys) = capturesOf xs + capturesOf ys"
  by (simp add: capturesOf_def)

lemma capturesOf_retryTrace: "capturesOf (spec_retryTrace req n) = 0"
  by (induction n) (auto simp: capturesOf_def)

lemma processedIds_append: "processedIds (xs @ ys) = processedIds xs @ processedIds ys"
  by (induction xs rule: processedIds.induct) auto

lemma processedIds_retryTrace: "processedIds (spec_retryTrace req n) = []"
  by (induction n) (auto simp: processedIds_append)

lemma generateOutput_trace_shape:
  "\<exists>n. snd (generateOutput env file tr) = tr @ spec_retryTrace (requestOf file) n"
proof -
  from generateOutput_cases [of env tr "file"] show ?thesis
  proof
    assume "\<exists>e. newClient env tr = Some e \<and> generateOutput env file tr = (diagnostic e, tr)"
    then have "snd (generateOutput env file tr) = tr @ spec_retryTrace (requestOf file) 0" by auto
    then show ?thesis ..
  next
    assume "newClient env tr = None \<and> (\<exists>n. 0 < n \<and> n \<le> maxAttempts \<and>
     snd (generateOutput env file tr) = tr @ spec_retryTrace (requestOf file) n \<and>
     (\<forall>k. 0 < k \<and> k < n \<longrightarrow> (\<exists>e. answerAt env tr (requestOf file) k = Inl e \<and> isRateLimited e)) \<and>
     (\<forall>answer. answerAt env tr (requestOf file) n = Inr answer \<longrightarrow>
        fst (generateOutput env file tr) = orElseOpt answer (noOutput (language file = ''html''))) \<and>
     (\<forall>e. answerAt env tr (requestOf file) n = Inl e \<longrightarrow>
        fst (generateOutput env file tr) = diagnostic e \<and> (\<not> isRateLimited e \<or> n = maxAttempts)))"
    then show ?thesis by blast
  qed
qed

lemma capturesOf_generateOutput: "capturesOf (snd (generateOutput env file tr)) = capturesOf tr"
proof -
  from generateOutput_trace_shape [of env "file" tr] obtain n
    where "snd (generateOutput env file tr) = tr @ spec_retryTrace (requestOf file) n" ..
  then show ?thesis by (simp add: capturesOf_append capturesOf_retryTrace)
qed

lemma processedIds_generateOutput: "processedIds (snd (generateOutput env file tr)) = processedIds tr"
proof -
  from generateOutput_trace_shape [of env "file" tr] obtain n
    where "snd (generateOutput env file tr) = tr @ spec_retryTrace (requestOf file) n" ..
  then show ?thesis by (simp add: processedIds_append processedIds_retryTrace)
qed

lemma processedIds_processSingleFile:
  "processedIds (trace (processSingleFile env snapshot i st)) = processedIds (trace st) @ [i]"
proof (cases "find (\<lambda>f. file_id f = i) snapshot")
  case None
  then show ?thesis
    by (simp add: processSingleFile_def trace_markRunning processedIds_append)
next
  case (Some found)
  show ?thesis
    by (simp add: trace_processSingleFile [OF Some] captureTime_def processedIds_append
        processedIds_generateOutput split: option.splits)
qed

lemma processedIds_processLoop:
  "processedIds (trace (processLoop env snapshot todo st)) = processedIds (trace st) @ map file_id todo"
  by (induction todo arbitrary: st)
     (simp_all add: processedIds_append processedIds_processSingleFile)

lemma processAll_idle:
  assumes "\<not> isProcessing st" "\<forall>f\<in>set (files st). status f = COMPLETED"
  shows "processAll env st = st"
proof -
  from assms(2) have "filter (\<lambda>f. status f \<noteq> COMPLETED) (files st) = []"
    by (simp add: filter_empty_conv)
  with assms(1) show ?thesis by (simp add: processAll_def)
qed

lemma trace_processAll:
  "\<not> isProcessing st \<Longrightarrow> trace (processAll env st) =
     trace (processLoop env (files st) (filter (\<lambda>f. status f \<noteq> COMPLETED) (files st)) (st\<lparr>isProcessing := True\<rparr>))"
  by (simp add: processAll_def Let_def)

lemma files_processAll:
  "\<not> isProcessing st \<Longrightarrow> files (processAll env st) =
     files (processLoop env (files st) (filter (\<lambda>f. status f \<noteq> COMPLETED) (files st)) (st\<lparr>isProcessing := True\<rparr>))"
  by (simp add: processAll_def Let_def)


section \<open>What a batch run does to one file\<close>

lemma updateFile_keeps:
  "f \<in> set fs \<Longrightarrow> file_id f \<noteq> i \<Longrightarrow> f \<in> set (updateFile i c fs)"
  by (force simp: updateFile_def)

lemma updateFile_changes:
  "f \<in> set fs \<Longrightarrow> file_id f = i \<Longrightarrow> c f \<in> set (updateFile i c fs)"
  by (force simp: updateFile_def)

lemma map_file_id_updateFile:
  "(\<And>f. file_id (c f) = file_id f) \<Longrightarrow> map file_id (updateFile i c fs) = map file_id fs"
  by (simp add: updateFile_def)

lemma processSingleFile_keeps:
  assumes "f \<in> set (files st)" "file_id f \<noteq> i"
  shows "f \<in> set (files (processSingleFile env snapshot i st))"
proof (cases "find (\<lambda>f. file_id f = i) snapshot")
  case None
  with assms show ?thesis
    by (simp add: processSingleFile_def files_markRunning updateFile_keeps)
next
  case (Some found)
  with assms show ?thesis
    by (simp add: files_processSingleFile [OF Some] updateFile_keeps)
qed

lemma map_file_id_processSingleFile:
  "map file_id (files (processSingleFile env snapshot i st)) = map file_id (files st)"
proof (cases "find (\<lambda>f. file_id f = i) snapshot")
  case None
  then show ?thesis
    by (simp add: processSingleFile_def files_markRunning map_file_id_updateFile)
next
  case (Some found)
  then show ?thesis
    by (simp add: files_processSingleFile [OF Some] map_file_id_updateFile)
qed

lemma map_file_id_processLoop:
  "map file_id (files (processLoop env snapshot todo st)) = map file_id (files st)"
  by (induction todo arbitrary: st) (simp_all add: map_file_id_processSingleFile)

lemma processLoop_keeps:
  "f \<in> set (files st) \<Longrightarrow> file_id f \<notin> file_id ` set todo \<Longrightarrow>
   f \<in> set (files (processLoop env snapshot todo st))"
proof (induction todo arbitrary: st)
  case Nil
  then show ?case by simp
next
  case (Cons y todo)
  from Cons.prems have "f \<in> set (files (sleep 700 (processSingleFile env snapshot (file_id y) st)))"
    by (simp add: processSingleFile_keeps)
  moreover from Cons.prems have "file_id f \<notin> file_id ` set todo" by simp
  ultimately show ?case by (simp add: Cons.IH)
qed

lemma find_distinct:
  "distinct (map file_id fs) \<Longrightarrow> y \<in> set fs \<Longrightarrow> find (\<lambda>f. file_id f = file_id y) fs = Some y"
  by (induction fs) (auto simp: image_iff)

lemma processLoop_processed:
  assumes "distinct (map file_id todo)" "x \<in> set todo"
    "\<forall>y\<in>set todo. find (\<lambda>f. file_id f = file_id y) snapshot = Some y"
    "f \<in> set (files st)" "file_id f = file_id x"
  shows "\<exists>out tr. processedFile out (captureResult env tr (file_id x)) f
           \<in> set (files (processLoop env snapshot todo st))"
  using assms
proof (induction todo arbitrary: st)
  case Nil
  then show ?case by simp
next
  case (Cons y todo)
  let ?st1 = "sleep 700 (processSingleFile env snapshot (file_id y) st)"
  show ?case
  proof (cases "file_id y = file_id x")
    case True
    from Cons.prems(3) have found: "find (\<lambda>f. file_id f = file_id y) snapshot = Some y" by simp
    let ?g = "processedFile (generatedOutput env y (file_id y) st)
        (captureResult env (captureTime env y (file_id y) st) (file_id y)) f"
    from Cons.prems(5) True have fy: "file_id f = file_id y" by simp
    have "files ?st1 = updateFile (file_id y) (processedFile (generatedOutput env y (file_id y) st)
        (captureResult env (captureTime env y (file_id y) st) (file_id y))) (files st)"
      by (simp add: files_processSingleFile [OF found])
    with updateFile_changes [OF Cons.prems(4) fy] have "?g \<in> set (files ?st1)"
      by simp
    moreover from Cons.prems(1) True Cons.prems(5) have "file_id ?g \<notin> file_id ` set todo"
      by simp
    ultimately have "?g \<in> set (files (processLoop env snapshot todo ?st1))"
      by (rule processLoop_keeps)
    with True show ?thesis by auto
  next
    case False
    with Cons.prems(2) have x: "x \<in> set todo" by auto
    from Cons.prems(4,5) False have "f \<in> set (files ?st1)"
      by (simp add: processSingleFile_keeps)
    with Cons.IH [of ?st1] Cons.prems(1,3,5) x show ?thesis by simp
  qed
qed

lemma processLoop_append:
  "processLoop env snapshot (xs @ ys) st = processLoop env snapshot ys (processLoop env snapshot xs st)"
  by (induction xs arbitrary: st) simp_all

lemma dropWhile_distinct:
  assumes "distinct (map file_id todo)" "f \<in> set todo"
  shows "dropWhile (\<lambda>y. file_id y \<noteq> file_id f) todo = f # tl (dropWhile (\<lambda>y. file_id y \<noteq> file_id f) todo)"
  using assms
proof (induction todo)
  case Nil
  then show ?case by simp
next
  case (Cons y todo)
  show ?case
  proof (cases "file_id y = file_id f")
    case True
    with Cons.prems have "y = f" by (auto simp: image_iff)
    then show ?thesis by simp
  next
    case False
    with Cons show ?thesis by auto
  qed
qed

lemma work_list_split:
  assumes "distinct (map file_id todo)" "f \<in> set todo"
  shows "todo = takeWhile (\<lambda>y. file_id y \<noteq> file_id f) todo @
                f # tl (dropWhile (\<lambda>y. file_id y \<noteq> file_id f) todo)"
  using dropWhile_distinct [OF assms] takeWhile_dropWhile_id [of "\<lambda>y. file_id y \<noteq> file_id f" todo]
  by simp

lemma processAll_turn:
  assumes idle: "\<not> isProcessing st" and dist: "distinct (map file_id (files st))"
    and f: "f \<in> set (files st)" and nc: "status f \<noteq> COMPLETED"
  shows "processAll env st =
           (processLoop env (files st) (filesBehind st f)
              (sleep 700 (processSingleFile env (files st) (file_id f) (stateAtTurn env st f))))
           \<lparr>isProcessing := False\<rparr>"
proof -
  let ?todo = "filter (\<lambda>f. status f \<noteq> COMPLETED) (files st)"
  from dist have d: "distinct (map file_id ?todo)" by (rule distinct_map_filter)
  from f nc have x: "f \<in> set ?todo" by simp
  note split = work_list_split [OF d x]
  have "processLoop env (files st) ?todo (st\<lparr>isProcessing := True\<rparr>) =
      processLoop env (files st) (filesBehind st f)
        (sleep 700 (processSingleFile env (files st) (file_id f) (stateAtTurn env st f)))"
    by (subst split) (simp add: processLoop_append stateAtTurn_def filesBehind_def)
  with idle show ?thesis by (simp add: processAll_def Let_def)
qed

lemma processAll_result:
  assumes idle: "\<not> isProcessing st" and dist: "distinct (map file_id (files st))"
    and f: "f \<in> set (files st)" and nc: "status f \<noteq> COMPLETED"
  shows "processedFile (generatedOutput env f (file_id f) (stateAtTurn env st f))
           (captureResult env (captureTime env f (file_id f) (stateAtTurn env st f)) (file_id f)) f
         \<in> set (files (processAll env st))"
proof -
  let ?todo = "filter (\<lambda>f. status f \<noteq> COMPLETED) (files st)"
  let ?P = "\<lambda>y. file_id y \<noteq> file_id f"
  let ?s = "stateAtTurn env st f"
  let ?g = "processedFile (generatedOutput env f (file_id f) ?s)
           (captureResult env (captureTime env f (file_id f) ?s) (file_id f)) f"
  from dist have d: "distinct (map file_id ?todo)" by (rule distinct_map_filter)
  from f nc have x: "f \<in> set ?todo" by simp
  note split = work_list_split [OF d x]
  have front: "file_id f \<notin> file_id ` set (takeWhile ?P ?todo)"
    by (auto dest: set_takeWhileD)
  have behind: "file_id f \<notin> file_id ` set (filesBehind st f)"
  proof -
    from d have "distinct (map file_id (takeWhile ?P ?todo @ f # filesBehind st f))"
      using split by (simp add: filesBehind_def)
    then show ?thesis by auto
  qed
  from f have "f \<in> set (files (st\<lparr>isProcessing := True\<rparr>))" by simp
  from processLoop_keeps [OF this front] have fs: "f \<in> set (files ?s)"
    by (simp add: stateAtTurn_def)
  from find_distinct [OF dist f] have found: "find (\<lambda>y. file_id y = file_id f) (files st) = Some f" .
  have "files (sleep 700 (processSingleFile env (files st) (file_id f) ?s)) =
      updateFile (file_id f) (processedFile (generatedOutput env f (file_id f) ?s)
           (captureResult env (captureTime env f (file_id f) ?s) (file_id f))) (files ?s)"
    by (simp add: files_processSingleFile [OF found])
  with updateFile_changes [OF fs refl]
  have "?g \<in> set (files (sleep 700 (processSingleFile env (files st) (file_id f) ?s)))"
    by simp
  moreover from behind have "file_id ?g \<notin> file_id ` set (filesBehind st f)" by simp
  ultimately have "?g \<in> set (files (processLoop env (files st) (filesBehind st f)
        (sleep 700 (processSingleFile env (files st) (file_id f) ?s))))"
    by (rule processLoop_keeps)
  then show ?thesis by (simp add: processAll_turn [OF idle dist f nc])
qed

lemma turn_trace:
  assumes found: "find (\<lambda>f. file_id f = file_id y) snapshot = Some y"
  shows "\<exists>n c. (n \<le> 4 \<and> ((\<forall>tr. newClient env tr = None) \<longrightarrow> 1 \<le> n)) \<and>
           (c = [] \<or> (\<exists>el. c = [ToPng el])) \<and>
           trace (sleep 700 (processSingleFile env snapshot (file_id y) s)) = trace s @ spec_fileRun y n c"
proof -
  let ?tr1 = "trace s @ [Process (file_id y)]"
  let ?c = "case terminalRefs env (captureTime env y (file_id y) s) (file_id y) of
              None \<Rightarrow> [] | Some el \<Rightarrow> [ToPng el]"
  have c: "?c = [] \<or> (\<exists>el. ?c = [ToPng el])" by (simp split: option.splits)
  have tr: "trace (sleep 700 (processSingleFile env snapshot (file_id y) s)) =
      snd (generateOutput env y ?tr1) @ [Sleep 800] @ ?c @ [Sleep 700]"
    by (simp add: trace_processSingleFile [OF found] captureTime_def)
  from generateOutput_cases [of env ?tr1 y]
  consider e where "newClient env ?tr1 = Some e" "generateOutput env y ?tr1 = (diagnostic e, ?tr1)"
    | n where "0 < n" "n \<le> maxAttempts" "snd (generateOutput env y ?tr1) = ?tr1 @ spec_retryTrace (requestOf y) n"
    by blast
  then show ?thesis
  proof cases
    case 1
    from 1(1) have nq: "\<not> (\<forall>tr. newClient env tr = None)" by auto
    from 1(2) tr have "trace (sleep 700 (processSingleFile env snapshot (file_id y) s)) =
        trace s @ spec_fileRun y 0 ?c"
      by (simp add: spec_fileRun_def)
    with nq c show ?thesis by (intro exI [of _ 0] exI [of _ ?c]) simp
  next
    case 2
    from 2(3) tr have "trace (sleep 700 (processSingleFile env snapshot (file_id y) s)) =
        trace s @ spec_fileRun y n ?c"
      by (simp add: spec_fileRun_def)
    moreover from 2(1,2) have "n \<le> 4 \<and> ((\<forall>tr. newClient env tr = None) \<longrightarrow> 1 \<le> n)"
      by (simp add: maxAttempts_def)
    ultimately show ?thesis using c by (intro exI [of _ n] exI [of _ ?c]) simp
  qed
qed

lemma processLoop_trace:
  assumes "\<forall>y\<in>set todo. find (\<lambda>f. file_id f = file_id y) snapshot = Some y"
  shows "\<exists>ns cs. length ns = length todo \<and> length cs = length todo \<and>
           (\<forall>n\<in>set ns. n \<le> 4 \<and> ((\<forall>tr. newClient env tr = None) \<longrightarrow> 1 \<le> n)) \<and>
           (\<forall>c\<in>set cs. c = [] \<or> (\<exists>el. c = [ToPng el])) \<and>
           trace (processLoop env snapshot todo s) =
             trace s @ concat (map (\<lambda>(f, n, c). spec_fileRun f n c) (zip todo (zip ns cs)))"
  using assms
proof (induction todo arbitrary: s)
  case Nil
  show ?case by (intro exI [of _ "[]"]) simp
next
  case (Cons y todo)
  let ?s1 = "sleep 700 (processSingleFile env snapshot (file_id y) s)"
  from Cons.prems have found: "find (\<lambda>f. file_id f = file_id y) snapshot = Some y" by simp
  from turn_trace [OF found, of env s] obtain n c where
    n: "n \<le> 4 \<and> ((\<forall>tr. newClient env tr = None) \<longrightarrow> 1 \<le> n)"
    and c: "c = [] \<or> (\<exists>el. c = [ToPng el])"
    and t1: "trace ?s1 = trace s @ spec_fileRun y n c"
    by blast
  from Cons.prems have "\<forall>y\<in>set todo. find (\<lambda>f. file_id f = file_id y) snapshot = Some y" by simp
  from Cons.IH [OF this, of ?s1] obtain ns cs where
    l: "length ns = length todo" "length cs = length todo"
    and ns: "\<forall>n\<in>set ns. n \<le> 4 \<and> ((\<forall>tr. newClient env tr = None) \<longrightarrow> 1 \<le> n)"
    and cs: "\<forall>c\<in>set cs. c = [] \<or> (\<exists>el. c = [ToPng el])"
    and t: "trace (processLoop env snapshot todo ?s1) =
             trace ?s1 @ concat (map (\<lambda>(f, n, c). spec_fileRun f n c) (zip todo (zip ns cs)))"
    by blast
  show ?case
  proof (intro exI [of _ "n # ns"] exI [of _ "c # cs"] conjI)
    show "length (n # ns) = length (y # todo)" using l by simp
    show "length (c # cs) = length (y # todo)" using l by simp
    show "\<forall>n\<in>set (n # ns). n \<le> 4 \<and> ((\<forall>tr. newClient env tr = None) \<longrightarrow> 1 \<le> n)"
      using n ns by simp
    show "\<forall>c\<in>set (c # cs). c = [] \<or> (\<exists>el. c = [ToPng el])" using c cs by simp
    show "trace (processLoop env snapshot (y # todo) s) =
        trace s @ concat (map (\<lambda>(f, n, c). spec_fileRun f n c) (zip (y # todo) (zip (n # ns) (c # cs))))"
      using t t1 by simp
  qed
qed

lemma isProcessing_processAll: "\<not> isProcessing st \<Longrightarrow> \<not> isProcessing (processAll env st)"
  by (simp add: processAll_def Let_def)

section \<open>Global replacement and the decimal text: auxiliary facts\<close>








lemma replaceFrom_no_match:
  "lit \<noteq> [] \<Longrightarrow> \<not> includes_str rest lit \<Longrightarrow> replaceFrom (Regex lit cls) rep pre rest = rest"
proof (induction rest arbitrary: pre)
  case Nil
  then show ?case by (simp add: replaceFrom.simps [of _ _ _ "[]"])
next
  case (Cons c cs)
  from Cons.prems have "matchAt (Regex lit cls) (c # cs) = None" and "\<not> includes_str cs lit"
    by simp_all
  with Cons.IH [OF Cons.prems(1), of "pre @ [c]"] show ?case
    by (simp add: replaceFrom.simps [of _ _ pre "c # cs"])
qed

lemma replaceAll_no_match:
  "lit \<noteq> [] \<Longrightarrow> \<not> includes_str s lit \<Longrightarrow> replaceAll (Regex lit cls) rep s = s"
  by (simp add: replaceAll_def replaceFrom_no_match)


















section \<open>The retry policy and the diagnostics\<close>

text \<open>
  C1, as stated.  The claim: when an attempt succeeds, the response text is returned.
  A response whose text is empty is replaced by a fixed placeholder: here the first
  attempt succeeds with the empty text and the output is not the empty text.
\<close>

theorem generateOutput_empty_response:
  "generateContent emptyAnswerEnv [] (requestOf (exampleFile ''f1'' ''a.py'')) = Inr (Some []) \<and>
   fst (generateOutput emptyAnswerEnv (exampleFile ''f1'' ''a.py'') []) = ''No output generated.'' \<and>
   fst (generateOutput emptyAnswerEnv (exampleFile ''f1'' ''a.py'') []) \<noteq> []"
  by code_simp

text \<open>
  C1, amended.  With \<open>n\<close> the number of calls of the service made by one
  \<open>generateOutput\<close>: \<open>n\<close> is at most 4; the events of the run are exactly those of
  \<open>n\<close> attempts with a suspension of \<open>1500 * 2^(k-2)\<close> ms in front of attempt
  \<open>k \<ge> 2\<close> and none elsewhere; an attempt that succeeds is the last one, and the output
  is then the response text, or the fixed placeholder when that text is empty or
  absent; a rate-limited failure of one of the first three attempts is followed by
  another attempt.
\<close>

theorem generateOutput_retry_policy:
  "let req = requestOf file;
       res = generateOutput env file tr;
       evs = drop (length tr) (snd res);
       n = attemptsOf evs
   in n \<le> 4 \<and> snd res = tr @ spec_retryTrace req n \<and>
      delaysOf evs = map (\<lambda>k. 1500 * 2 ^ (k - 2)) [2..<Suc n] \<and>
      (\<forall>k\<in>{1..n}. \<forall>answer. generateContent env (tr @ spec_beforeAttempt req k) req = Inr answer \<longrightarrow>
          k = n \<and> fst res = orElseOpt answer (noOutput (language file = ''html''))) \<and>
      (\<forall>k\<in>{1..n}. \<forall>e. generateContent env (tr @ spec_beforeAttempt req k) req = Inl e \<and>
          isRateLimited e \<and> k < 4 \<longrightarrow> k < n)"
proof -
  from generateOutput_cases [of env tr "file"]
  consider e where "newClient env tr = Some e" "generateOutput env file tr = (diagnostic e, tr)"
    | n where "0 < n" "n \<le> maxAttempts"
      "snd (generateOutput env file tr) = tr @ spec_retryTrace (requestOf file) n"
      "\<forall>k. 0 < k \<and> k < n \<longrightarrow> (\<exists>e. answerAt env tr (requestOf file) k = Inl e \<and> isRateLimited e)"
      "\<forall>answer. answerAt env tr (requestOf file) n = Inr answer \<longrightarrow>
        fst (generateOutput env file tr) = orElseOpt answer (noOutput (language file = ''html''))"
      "\<forall>e. answerAt env tr (requestOf file) n = Inl e \<longrightarrow>
        fst (generateOutput env file tr) = diagnostic e \<and> (\<not> isRateLimited e \<or> n = maxAttempts)"
    by blast
  then show ?thesis
  proof cases
    case 1
    then show ?thesis by (simp add: attemptsOf_def)
  next
    case 2
    have evs: "drop (length tr) (snd (generateOutput env file tr)) = spec_retryTrace (requestOf file) n"
      by (simp add: 2(3))
    have succ: "k = n \<and> fst (generateOutput env file tr) = orElseOpt answer (noOutput (language file = ''html''))"
      if k: "k \<in> {1..n}" and ans: "generateContent env (tr @ spec_beforeAttempt (requestOf file) k) (requestOf file) = Inr answer"
      for k answer
    proof -
      from k have kpos: "0 < k" and kle: "k \<le> n" by simp_all
      have "\<not> k < n"
      proof
        assume "k < n"
        with kpos 2(4) obtain e where "answerAt env tr (requestOf file) k = Inl e" by blast
        with ans show False by (simp add: answerAt_def)
      qed
      with kle have kn: "k = n" by simp
      from ans have "answerAt env tr (requestOf file) n = Inr answer"
        by (simp add: answerAt_def kn)
      with 2(5) have "fst (generateOutput env file tr) = orElseOpt answer (noOutput (language file = ''html''))"
        by blast
      with kn show ?thesis by simp
    qed
    have retry: "k < n"
      if k: "k \<in> {1..n}" and err: "generateContent env (tr @ spec_beforeAttempt (requestOf file) k) (requestOf file) = Inl e"
         and rl: "isRateLimited e" and k4: "k < 4"
      for k e
    proof (rule ccontr)
      assume "\<not> k < n"
      with k have kn: "k = n" by simp
      from err have "answerAt env tr (requestOf file) n = Inl e"
        by (simp add: answerAt_def kn)
      with 2(6) have "\<not> isRateLimited e \<or> n = maxAttempts" by blast
      with rl k4 kn show False by (simp add: maxAttempts_def)
    qed
    have n4: "n \<le> 4" using 2(2) by (simp add: maxAttempts_def)
    show ?thesis
      unfolding Let_def evs attemptsOf_retryTrace
    proof (intro conjI ballI allI impI)
      show "n \<le> 4" by (rule n4)
      show "snd (generateOutput env file tr) = tr @ spec_retryTrace (requestOf file) n" by (rule 2(3))
      show "delaysOf (spec_retryTrace (requestOf file) n) = map (\<lambda>k. 1500 * 2 ^ (k - 2)) [2..<Suc n]"
        by (rule delaysOf_retryTrace)
    next
      fix k answer
      assume "k \<in> {1..n}" "generateContent env (tr @ spec_beforeAttempt (requestOf file) k) (requestOf file) = Inr answer"
      from succ [OF this] show "k = n"
        and "fst (generateOutput env file tr) = orElseOpt answer (noOutput (language file = ''html''))"
        by simp_all
    next
      fix k e
      assume "k \<in> {1..n}" and "generateContent env (tr @ spec_beforeAttempt (requestOf file) k) (requestOf file) = Inl e \<and>
          isRateLimited e \<and> k < 4"
      then show "k < n" using retry by blast
    qed
  qed
qed

theorem generateOutput_retry_policy_witness:
  "attemptsOf (snd (generateOutput (scriptedEnv 3 status429 (Some ''hello'') []) (exampleFile ''f1'' ''a.py'') [])) = 4 \<and>
   delaysOf (snd (generateOutput (scriptedEnv 3 status429 (Some ''hello'') []) (exampleFile ''f1'' ''a.py'') [])) = [1500, 3000, 6000] \<and>
   isRateLimited status429 \<and>
   generateContent (scriptedEnv 3 status429 (Some ''hello'') [])
     (spec_beforeAttempt (requestOf (exampleFile ''f1'' ''a.py'')) 1) (requestOf (exampleFile ''f1'' ''a.py'')) = Inl status429 \<and>
   generateContent (scriptedEnv 3 status429 (Some ''hello'') [])
     (spec_beforeAttempt (requestOf (exampleFile ''f1'' ''a.py'')) 4) (requestOf (exampleFile ''f1'' ''a.py'')) = Inr (Some ''hello'') \<and>
   fst (generateOutput (scriptedEnv 3 status429 (Some ''hello'') []) (exampleFile ''f1'' ''a.py'') []) = ''hello''"
proof -
  let ?env = "scriptedEnv 3 status429 (Some ''hello'') []"
  let ?file = "exampleFile ''f1'' ''a.py''"
  have n: "attemptsOf (drop (length ([]::event list)) (snd (generateOutput ?env ?file []))) = 4"
    by code_simp
  have rl: "isRateLimited status429" by code_simp
  have a1: "generateContent ?env (spec_beforeAttempt (requestOf ?file) 1) (requestOf ?file) = Inl status429"
    by code_simp
  have a4: "generateContent ?env ([] @ spec_beforeAttempt (requestOf ?file) 4) (requestOf ?file) = Inr (Some ''hello'')"
    by code_simp
  have or: "orElseOpt (Some ''hello'') (noOutput (language ?file = ''html'')) = ''hello''"
    by code_simp
  have up: "map (\<lambda>k. 1500 * 2 ^ (k - 2)) [2..<Suc 4] = [1500, 3000, 6000::nat]"
    by code_simp
  have mem: "(4::nat) \<in> {1..4}" by simp
  note p = generateOutput_retry_policy [of ?file ?env "[]", unfolded Let_def n]
  from p have d: "delaysOf (drop (length ([]::event list)) (snd (generateOutput ?env ?file []))) =
      map (\<lambda>k. 1500 * 2 ^ (k - 2)) [2..<Suc 4]"
    by blast
  from p have s: "\<forall>k\<in>{1..4}. \<forall>answer.
      generateContent ?env ([] @ spec_beforeAttempt (requestOf ?file) k) (requestOf ?file) = Inr answer \<longrightarrow>
      k = 4 \<and> fst (generateOutput ?env ?file []) = orElseOpt answer (noOutput (language ?file = ''html''))"
    by blast
  from s mem a4 have "fst (generateOutput ?env ?file []) = orElseOpt (Some ''hello'') (noOutput (language ?file = ''html''))"
    by blast
  with or have out: "fst (generateOutput ?env ?file []) = ''hello''" by simp
  from n have n': "attemptsOf (snd (generateOutput ?env ?file [])) = 4" by simp
  from d up have d': "delaysOf (snd (generateOutput ?env ?file [])) = [1500, 3000, 6000]" by simp
  from a4 have a4': "generateContent ?env (spec_beforeAttempt (requestOf ?file) 4) (requestOf ?file) = Inr (Some ''hello'')"
    by simp
  from n' d' rl a1 a4' out show ?thesis by blast
qed


text \<open>
  C2.  The claim: when the attempts are exhausted on a rate-limited error, the output is
  the fixed rate-limit diagnostic.  The retry loop classifies an error as rate-limited
  also by the text \<open>429\<close> in its string form, the outer handler does not: for an error
  that carries its status only in its text, all four attempts are made, with the three
  suspensions, and the output is the generic diagnostic.
\<close>

theorem generateOutput_text_only_429:
  "isRateLimited textOnly429 \<and>
   generateOutput (failingEnv textOnly429) (exampleFile ''f1'' ''a.py'') [] =
     (genericMessage,
      [GenerateContent (Request False ''py'' ''print(1)''), Sleep 1500,
       GenerateContent (Request False ''py'' ''print(1)''), Sleep 3000,
       GenerateContent (Request False ''py'' ''print(1)''), Sleep 6000,
       GenerateContent (Request False ''py'' ''print(1)'')]) \<and>
   genericMessage \<noteq> rateLimitMessage"
  by code_simp


text \<open>
  C3, as stated.  The claim: every error that is not classified as rate-limited is
  propagated after exactly 1 attempt with 0 delays.  Here the service throws a status
  429 error twice and then an error with status 500 and no marker: the error that is
  propagated was raised by the third attempt, after suspensions of 1500 and 3000 ms.
\<close>

theorem other_failure_after_retries:
  "err_status status500 \<noteq> JNumber 429 \<and> err_code status500 \<noteq> JNumber 429 \<and>
   err_response_status status500 \<noteq> JNumber 429 \<and> err_error_code status500 \<noteq> JNumber 429 \<and>
   err_error_status status500 \<noteq> JNumber 429 \<and>
   \<not> includes_str (err_string status500) ''429'' \<and>
   \<not> includes_str (err_string status500) ''RESOURCE_EXHAUSTED'' \<and>
   generateContent (rateLimitedThenEnv 2 status500)
     (spec_beforeAttempt (requestOf (exampleFile ''f1'' ''a.py'')) 3)
     (requestOf (exampleFile ''f1'' ''a.py'')) = Inl status500 \<and>
   attemptsOf (snd (generateOutput (rateLimitedThenEnv 2 status500) (exampleFile ''f1'' ''a.py'') [])) = 3 \<and>
   delaysOf (snd (generateOutput (rateLimitedThenEnv 2 status500) (exampleFile ''f1'' ''a.py'') [])) =
     [1500, 3000]"
  by code_simp


text \<open>
  C3, amended.  \<open>e\<close> is an error with no numeric 429 in any of the five status fields
  and neither marker in its string form; \<open>n\<close> is the number of calls of the service
  made for the file.  Whichever attempt \<open>k\<close> raises \<open>e\<close>, it is the last one: no
  call and no suspension follows it, the output is the generic diagnostic, the file is
  marked COMPLETED with that text attached, and after the capture step it still carries
  the text and is COMPLETED unless the capture threw.  When the first call raises \<open>e\<close>
  there is exactly 1 attempt and no suspension at all.
\<close>

theorem other_failure_ends_the_attempts:
  assumes fields: "err_status e \<noteq> JNumber 429" "err_code e \<noteq> JNumber 429"
      "err_response_status e \<noteq> JNumber 429" "err_error_code e \<noteq> JNumber 429"
      "err_error_status e \<noteq> JNumber 429"
    and markers: "\<not> includes_str (err_string e) ''429''"
      "\<not> includes_str (err_string e) ''RESOURCE_EXHAUSTED''"
    and found: "find (\<lambda>f. file_id f = fileId) snapshot = Some file"
  shows "let tr1 = trace st @ [Process fileId];
             req = requestOf file;
             res = generateOutput env file tr1;
             n = attemptsOf (drop (length tr1) (snd res));
             converted =
               (fst res = genericMessage \<and>
                (\<forall>g\<in>set (files (attachOutput env file fileId (markRunning fileId st))).
                   file_id g = fileId \<longrightarrow> status g = COMPLETED \<and> output_text g = Some genericMessage) \<and>
                (\<forall>g\<in>set (files (processSingleFile env snapshot fileId st)).
                   file_id g = fileId \<longrightarrow>
                     output_text g = Some genericMessage \<and>
                     (status g = COMPLETED \<or>
                      status g = ERROR \<and>
                      captureResult env (captureTime env file fileId st) fileId = CaptureFailed)))
         in (\<forall>k\<in>{1..n}. generateContent env (tr1 @ spec_beforeAttempt req k) req = Inl e \<longrightarrow>
               k = n \<and> snd res = tr1 @ spec_retryTrace req k \<and> converted) \<and>
            (newClient env tr1 = None \<and> generateContent env tr1 req = Inl e \<longrightarrow>
               n = 1 \<and> snd res = tr1 @ [GenerateContent req] \<and>
               delaysOf (drop (length tr1) (snd res)) = [] \<and> converted)"
proof -
  let ?tr1 = "trace st @ [Process fileId]"
  let ?req = "requestOf file"
  let ?res = "generateOutput env file ?tr1"
  let ?n = "attemptsOf (drop (length ?tr1) (snd ?res))"
  let ?conv = "fst ?res = genericMessage \<and>
                (\<forall>g\<in>set (files (attachOutput env file fileId (markRunning fileId st))).
                   file_id g = fileId \<longrightarrow> status g = COMPLETED \<and> output_text g = Some genericMessage) \<and>
                (\<forall>g\<in>set (files (processSingleFile env snapshot fileId st)).
                   file_id g = fileId \<longrightarrow>
                     output_text g = Some genericMessage \<and>
                     (status g = COMPLETED \<or>
                      status g = ERROR \<and>
                      captureResult env (captureTime env file fileId st) fileId = CaptureFailed))"
  from fields have st429: "getErrorStatus e \<noteq> Some 429" by (rule no_sign_not_rate_limited)
  with markers have nrl: "\<not> isRateLimited e" and diag: "diagnostic e = genericMessage"
    by (simp_all add: isRateLimited_def diagnostic_def)
  text \<open>once the output is the generic text, the file carries it\<close>
  have conv: ?conv if out: "fst ?res = genericMessage"
  proof (intro conjI ballI impI)
    show "fst ?res = genericMessage" by (rule out)
  next
    fix g
    assume g: "g \<in> set (files (attachOutput env file fileId (markRunning fileId st)))"
      and gi: "file_id g = fileId"
    let ?c = "\<lambda>f. f\<lparr>status := RUNNING\<rparr>\<lparr>output_text := Some genericMessage, status := COMPLETED\<rparr>"
    have "files (attachOutput env file fileId (markRunning fileId st)) = updateFile fileId ?c (files st)"
      by (simp add: files_attachOutput files_markRunning trace_markRunning out updateFile_twice)
    with g have "g \<in> set (updateFile fileId ?c (files st))" by simp
    from updateFile_member [OF this gi] obtain f where "g = ?c f" by auto
    then show "status g = COMPLETED" and "output_text g = Some genericMessage" by simp_all
  next
    fix g
    assume g: "g \<in> set (files (processSingleFile env snapshot fileId st))" and gi: "file_id g = fileId"
    from g have "g \<in> set (updateFile fileId (processedFile (generatedOutput env file fileId st)
        (captureResult env (captureTime env file fileId st) fileId)) (files st))"
      by (simp add: files_processSingleFile [OF found])
    from updateFile_member [OF this gi] obtain f where
      gf: "g = processedFile (generatedOutput env file fileId st)
        (captureResult env (captureTime env file fileId st) fileId) f"
      by auto
    then show "output_text g = Some genericMessage"
      by (simp add: processedFile_def generatedOutput_def out)
    from gf show "status g = COMPLETED \<or>
                      status g = ERROR \<and>
                      captureResult env (captureTime env file fileId st) fileId = CaptureFailed"
      by (cases "captureResult env (captureTime env file fileId st) fileId")
         (simp_all add: processedFile_def)
  qed
  have general: "k = ?n \<and> snd ?res = ?tr1 @ spec_retryTrace ?req k \<and> ?conv"
    if k: "k \<in> {1..?n}" and err: "generateContent env (?tr1 @ spec_beforeAttempt ?req k) ?req = Inl e" for k
  proof -
    from generateOutput_cases [of env ?tr1 "file"]
    consider e' where "newClient env ?tr1 = Some e'" "generateOutput env file ?tr1 = (diagnostic e', ?tr1)"
      | m where "0 < m" "m \<le> maxAttempts"
        "snd ?res = ?tr1 @ spec_retryTrace ?req m"
        "\<forall>j. 0 < j \<and> j < m \<longrightarrow> (\<exists>e'. answerAt env ?tr1 ?req j = Inl e' \<and> isRateLimited e')"
        "\<forall>e'. answerAt env ?tr1 ?req m = Inl e' \<longrightarrow>
           fst ?res = diagnostic e' \<and> (\<not> isRateLimited e' \<or> m = maxAttempts)"
      by blast
    then show ?thesis
    proof cases
      case 1
      then have "?n = 0" by (simp add: attemptsOf_def)
      with k show ?thesis by simp
    next
      case 2
      have nm: "?n = m" by (simp add: 2(3) attemptsOf_retryTrace)
      from k nm have kpos: "0 < k" and kle: "k \<le> m" by simp_all
      have "\<not> k < m"
      proof
        assume "k < m"
        with kpos 2(4) obtain e' where "answerAt env ?tr1 ?req k = Inl e'" "isRateLimited e'" by blast
        with err nrl show False by (simp add: answerAt_def)
      qed
      with kle have km: "k = m" by simp
      from err have "answerAt env ?tr1 ?req m = Inl e" by (simp add: answerAt_def km)
      with 2(5) have "fst ?res = diagnostic e" by blast
      with diag have out: "fst ?res = genericMessage" by simp
      from km nm 2(3) conv [OF out] show ?thesis by simp
    qed
  qed
  have first: "?n = 1 \<and> snd ?res = ?tr1 @ [GenerateContent ?req] \<and>
               delaysOf (drop (length ?tr1) (snd ?res)) = [] \<and> ?conv"
    if client: "newClient env ?tr1 = None" and err: "generateContent env ?tr1 ?req = Inl e"
  proof -
    from generateOutput_first_failure [OF client err nrl] diag
    have gen: "?res = (genericMessage, ?tr1 @ [GenerateContent ?req])" by simp
    then have out: "fst ?res = genericMessage" by simp
    from gen have "snd ?res = ?tr1 @ [GenerateContent ?req]" by simp
    moreover from this have "drop (length ?tr1) (snd ?res) = [GenerateContent ?req]" by simp
    ultimately show ?thesis using conv [OF out] by (simp add: attemptsOf_def)
  qed
  have g1: "\<forall>k\<in>{1..?n}. generateContent env (?tr1 @ spec_beforeAttempt ?req k) ?req = Inl e \<longrightarrow>
               k = ?n \<and> snd ?res = ?tr1 @ spec_retryTrace ?req k \<and> ?conv"
    using general by blast
  have g2: "newClient env ?tr1 = None \<and> generateContent env ?tr1 ?req = Inl e \<longrightarrow>
               ?n = 1 \<and> snd ?res = ?tr1 @ [GenerateContent ?req] \<and>
               delaysOf (drop (length ?tr1) (snd ?res)) = [] \<and> ?conv"
    using first by blast
  show ?thesis
    unfolding Let_def by (rule conjI [OF g1 g2])
qed



theorem other_failure_ends_the_attempts_witness:
  "generateContent (rateLimitedThenEnv 2 status500)
     ((trace (initialState [exampleFile ''f1'' ''a.py'']) @ [Process ''f1'']) @
        spec_beforeAttempt (requestOf (exampleFile ''f1'' ''a.py'')) 3)
     (requestOf (exampleFile ''f1'' ''a.py'')) = Inl status500 \<and>
   generateOutput (rateLimitedThenEnv 2 status500) (exampleFile ''f1'' ''a.py'')
     (trace (initialState [exampleFile ''f1'' ''a.py'']) @ [Process ''f1'']) =
     (genericMessage,
      [Process ''f1'', GenerateContent (Request False ''py'' ''print(1)''), Sleep 1500,
       GenerateContent (Request False ''py'' ''print(1)''), Sleep 3000,
       GenerateContent (Request False ''py'' ''print(1)'')]) \<and>
   generateContent (failingEnv status500) (trace (initialState [exampleFile ''f1'' ''a.py'']) @ [Process ''f1''])
     (requestOf (exampleFile ''f1'' ''a.py'')) = Inl status500 \<and>
   generateOutput (failingEnv status500) (exampleFile ''f1'' ''a.py'')
     (trace (initialState [exampleFile ''f1'' ''a.py'']) @ [Process ''f1'']) =
     (genericMessage, [Process ''f1'', GenerateContent (Request False ''py'' ''print(1)'')]) \<and>
   files (processSingleFile (failingEnv status500) [exampleFile ''f1'' ''a.py''] ''f1''
          (initialState [exampleFile ''f1'' ''a.py''])) =
     [(exampleFile ''f1'' ''a.py'')\<lparr>status := COMPLETED, output_text := Some genericMessage,
        imageBlob := Some (Blob ''png'')\<rparr>]"
proof -
  let ?file = "exampleFile ''f1'' ''a.py''"
  let ?st = "initialState [?file]"
  let ?tr1 = "trace ?st @ [Process ''f1'']"
  let ?req = "requestOf ?file"
  let ?envA = "rateLimitedThenEnv 2 status500"
  let ?envB = "failingEnv status500"
  have fields: "err_status status500 \<noteq> JNumber 429" "err_code status500 \<noteq> JNumber 429"
      "err_response_status status500 \<noteq> JNumber 429" "err_error_code status500 \<noteq> JNumber 429"
      "err_error_status status500 \<noteq> JNumber 429"
    by (simp_all add: status500_def)
  have markers: "\<not> includes_str (err_string status500) ''429''"
      "\<not> includes_str (err_string status500) ''RESOURCE_EXHAUSTED''"
    by code_simp+
  have found: "find (\<lambda>f. file_id f = ''f1'') [?file] = Some ?file" by code_simp
  note tA = other_failure_ends_the_attempts [OF fields markers found, of ?st ?envA, unfolded Let_def]
  note tB = other_failure_ends_the_attempts [OF fields markers found, of ?st ?envB, unfolded Let_def]
  text \<open>the third attempt of the first service\<close>
  have nA: "attemptsOf (drop (length ?tr1) (snd (generateOutput ?envA ?file ?tr1))) = 3" by code_simp
  have memA: "(3::nat) \<in> {1..attemptsOf (drop (length ?tr1) (snd (generateOutput ?envA ?file ?tr1)))}"
    unfolding nA by simp
  have failsA: "generateContent ?envA (?tr1 @ spec_beforeAttempt ?req 3) ?req = Inl status500"
    by code_simp
  from tA memA failsA
  have "snd (generateOutput ?envA ?file ?tr1) = ?tr1 @ spec_retryTrace ?req 3"
    and "fst (generateOutput ?envA ?file ?tr1) = genericMessage"
    by blast+
  moreover have "?tr1 @ spec_retryTrace ?req 3 =
      [Process ''f1'', GenerateContent (Request False ''py'' ''print(1)''), Sleep 1500,
       GenerateContent (Request False ''py'' ''print(1)''), Sleep 3000,
       GenerateContent (Request False ''py'' ''print(1)'')]"
    by code_simp
  ultimately have outA: "generateOutput ?envA ?file ?tr1 =
     (genericMessage,
      [Process ''f1'', GenerateContent (Request False ''py'' ''print(1)''), Sleep 1500,
       GenerateContent (Request False ''py'' ''print(1)''), Sleep 3000,
       GenerateContent (Request False ''py'' ''print(1)'')])"
    by (simp add: prod_eq_iff)
  text \<open>the first attempt of the second service\<close>
  have clientB: "newClient ?envB ?tr1 = None" by code_simp
  have failsB: "generateContent ?envB ?tr1 ?req = Inl status500" by code_simp
  from tB clientB failsB
  have "snd (generateOutput ?envB ?file ?tr1) = ?tr1 @ [GenerateContent ?req]"
    and "fst (generateOutput ?envB ?file ?tr1) = genericMessage"
    by blast+
  moreover have "?tr1 @ [GenerateContent ?req] = [Process ''f1'', GenerateContent (Request False ''py'' ''print(1)'')]"
    by code_simp
  ultimately have outB: "generateOutput ?envB ?file ?tr1 =
     (genericMessage, [Process ''f1'', GenerateContent (Request False ''py'' ''print(1)'')])"
    by (simp add: prod_eq_iff)
  have fs: "files (processSingleFile ?envB [?file] ''f1'' ?st) =
     [?file\<lparr>status := COMPLETED, output_text := Some genericMessage, imageBlob := Some (Blob ''png'')\<rparr>]"
    by code_simp
  from failsA outA failsB outB fs show ?thesis by blast
qed

section \<open>The batch run\<close>

text \<open>
  C4.  A batch run that starts (no run in progress) invokes \<open>processSingleFile\<close> for
  exactly the files whose status is not COMPLETED, one after the other in the order of
  the list.  When every file is COMPLETED the run does nothing: the files are as they
  were, and no event, hence no remote call and no capture, is added.  When the ids are
  pairwise distinct, the events of the run are the turns of the unfinished files in
  list order and nothing else, each turn made of at most 4 calls carrying the request
  of that file (at least 1 when the client can be built), the settle delay, at most
  one capture and the pacing delay; the run ends with the flag cleared and the same
  list of ids; every file that was COMPLETED is in the list unchanged; and every
  unfinished file keeps its name, content and language, carries the output generated
  for it in its turn and is COMPLETED or in ERROR.
\<close>

theorem batch_processes_unfinished_files_in_order:
  assumes idle: "\<not> isProcessing st"
  shows "processedIds (trace (processAll env st)) =
           processedIds (trace st) @ map file_id (filter (\<lambda>f. status f \<noteq> COMPLETED) (files st)) \<and>
         ((\<forall>f\<in>set (files st). status f = COMPLETED) \<longrightarrow>
            files (processAll env st) = files st \<and>
            trace (processAll env st) = trace st \<and>
            attemptsOf (trace (processAll env st)) = attemptsOf (trace st) \<and>
            capturesOf (trace (processAll env st)) = capturesOf (trace st)) \<and>
         (distinct (map file_id (files st)) \<longrightarrow>
            (\<exists>ns cs.
               length ns = length (filter (\<lambda>f. status f \<noteq> COMPLETED) (files st)) \<and>
               length cs = length (filter (\<lambda>f. status f \<noteq> COMPLETED) (files st)) \<and>
               (\<forall>n\<in>set ns. n \<le> 4 \<and> ((\<forall>tr. newClient env tr = None) \<longrightarrow> 1 \<le> n)) \<and>
               (\<forall>c\<in>set cs. c = [] \<or> (\<exists>el. c = [ToPng el])) \<and>
               trace (processAll env st) =
                 trace st @
                 concat (map (\<lambda>(f, n, c). spec_fileRun f n c)
                   (zip (filter (\<lambda>f. status f \<noteq> COMPLETED) (files st)) (zip ns cs)))) \<and>
            map file_id (files (processAll env st)) = map file_id (files st) \<and>
            \<not> isProcessing (processAll env st) \<and>
            (\<forall>f\<in>set (files st). status f = COMPLETED \<longrightarrow> f \<in> set (files (processAll env st))) \<and>
            (\<forall>f\<in>set (files st). status f \<noteq> COMPLETED \<longrightarrow>
               (\<exists>g\<in>set (files (processAll env st)).
                  file_id g = file_id f \<and> name g = name f \<and> content g = content f \<and>
                  language g = language f \<and>
                  output_text g = Some (generatedOutput env f (file_id f) (stateAtTurn env st f)) \<and>
                  (status g = COMPLETED \<or> status g = ERROR))))"
proof (intro conjI impI)
  show "processedIds (trace (processAll env st)) =
           processedIds (trace st) @ map file_id (filter (\<lambda>f. status f \<noteq> COMPLETED) (files st))"
    using idle by (simp add: trace_processAll processedIds_processLoop)
next
  assume "\<forall>f\<in>set (files st). status f = COMPLETED"
  with idle have same: "processAll env st = st" by (rule processAll_idle)
  show "files (processAll env st) = files st" by (simp add: same)
  show "trace (processAll env st) = trace st" by (simp add: same)
  show "attemptsOf (trace (processAll env st)) = attemptsOf (trace st)" by (simp add: same)
  show "capturesOf (trace (processAll env st)) = capturesOf (trace st)" by (simp add: same)
next
  assume dist: "distinct (map file_id (files st))"
  let ?todo = "filter (\<lambda>f. status f \<noteq> COMPLETED) (files st)"
  have fnd: "\<forall>y\<in>set ?todo. find (\<lambda>f. file_id f = file_id y) (files st) = Some y"
    using dist by (auto intro: find_distinct)
  from processLoop_trace [OF fnd, of env "st\<lparr>isProcessing := True\<rparr>"] idle
  show "\<exists>ns cs.
               length ns = length ?todo \<and> length cs = length ?todo \<and>
               (\<forall>n\<in>set ns. n \<le> 4 \<and> ((\<forall>tr. newClient env tr = None) \<longrightarrow> 1 \<le> n)) \<and>
               (\<forall>c\<in>set cs. c = [] \<or> (\<exists>el. c = [ToPng el])) \<and>
               trace (processAll env st) =
                 trace st @
                 concat (map (\<lambda>(f, n, c). spec_fileRun f n c) (zip ?todo (zip ns cs)))"
    by (simp add: trace_processAll)
next
  show "map file_id (files (processAll env st)) = map file_id (files st)"
    using idle by (simp add: files_processAll map_file_id_processLoop)
next
  show "\<not> isProcessing (processAll env st)"
    by (rule isProcessing_processAll [OF idle])
next
  assume dist: "distinct (map file_id (files st))"
  show "\<forall>f\<in>set (files st). status f = COMPLETED \<longrightarrow> f \<in> set (files (processAll env st))"
  proof (intro ballI impI)
    fix f
    assume f: "f \<in> set (files st)" and c: "status f = COMPLETED"
    have "file_id f \<notin> file_id ` set (filter (\<lambda>f. status f \<noteq> COMPLETED) (files st))"
    proof
      assume "file_id f \<in> file_id ` set (filter (\<lambda>f. status f \<noteq> COMPLETED) (files st))"
      then obtain y where y: "y \<in> set (files st)" "status y \<noteq> COMPLETED" "file_id y = file_id f"
        by auto
      from dist have "inj_on file_id (set (files st))" by (simp add: distinct_map)
      with y(1,3) f have "y = f" by (auto dest: inj_onD)
      with y(2) c show False by simp
    qed
    moreover from f have "f \<in> set (files (st\<lparr>isProcessing := True\<rparr>))" by simp
    ultimately have "f \<in> set (files (processLoop env (files st)
        (filter (\<lambda>f. status f \<noteq> COMPLETED) (files st)) (st\<lparr>isProcessing := True\<rparr>)))"
      by (intro processLoop_keeps)
    with idle show "f \<in> set (files (processAll env st))" by (simp add: files_processAll)
  qed
next
  assume dist: "distinct (map file_id (files st))"
  show "\<forall>f\<in>set (files st). status f \<noteq> COMPLETED \<longrightarrow>
               (\<exists>g\<in>set (files (processAll env st)).
                  file_id g = file_id f \<and> name g = name f \<and> content g = content f \<and>
                  language g = language f \<and>
                  output_text g = Some (generatedOutput env f (file_id f) (stateAtTurn env st f)) \<and>
                  (status g = COMPLETED \<or> status g = ERROR))"
  proof (intro ballI impI)
    fix f
    assume f: "f \<in> set (files st)" and nc: "status f \<noteq> COMPLETED"
    let ?g = "processedFile (generatedOutput env f (file_id f) (stateAtTurn env st f))
           (captureResult env (captureTime env f (file_id f) (stateAtTurn env st f)) (file_id f)) f"
    have mem: "?g \<in> set (files (processAll env st))"
      by (rule processAll_result [OF idle dist f nc])
    have "file_id ?g = file_id f \<and> name ?g = name f \<and> content ?g = content f \<and>
          language ?g = language f \<and>
          output_text ?g = Some (generatedOutput env f (file_id f) (stateAtTurn env st f)) \<and>
          (status ?g = COMPLETED \<or> status ?g = ERROR)"
      by (cases "captureResult env (captureTime env f (file_id f) (stateAtTurn env st f)) (file_id f)")
         (simp_all add: processedFile_def)
    with mem show "\<exists>g\<in>set (files (processAll env st)).
                  file_id g = file_id f \<and> name g = name f \<and> content g = content f \<and>
                  language g = language f \<and>
                  output_text g = Some (generatedOutput env f (file_id f) (stateAtTurn env st f)) \<and>
                  (status g = COMPLETED \<or> status g = ERROR)"
      by (rule bexI [rotated])
  qed
qed

theorem batch_processes_unfinished_files_in_order_witness:
  "\<not> isProcessing mixedFiles \<and> distinct (map file_id (files mixedFiles)) \<and>
   map status (files mixedFiles) = [COMPLETED, PENDING, COMPLETED, PENDING] \<and>
   processedIds (trace (processAll (scriptedEnv 1 status429 (Some ''hello'') []) mixedFiles)) =
     [''f2'', ''f4''] \<and>
   trace (processAll (scriptedEnv 1 status429 (Some ''hello'') []) mixedFiles) =
     spec_fileRun (exampleFile ''f2'' ''b.py'') 2 [ToPng (Element ''f2'')] @
     spec_fileRun (exampleFile ''f4'' ''d.py'') 1 [ToPng (Element ''f4'')] \<and>
   completedFile ''f1'' \<in> set (files (processAll (scriptedEnv 1 status429 (Some ''hello'') []) mixedFiles)) \<and>
   files (processAll (scriptedEnv 1 status429 (Some ''hello'') []) mixedFiles) =
     [completedFile ''f1'',
      (exampleFile ''f2'' ''b.py'')\<lparr>status := COMPLETED, output_text := Some ''hello'',
         imageBlob := Some (Blob ''png'')\<rparr>,
      completedFile ''f3'',
      (exampleFile ''f4'' ''d.py'')\<lparr>status := COMPLETED, output_text := Some ''hello'',
         imageBlob := Some (Blob ''png'')\<rparr>] \<and>
   \<not> isProcessing (initialState [completedFile ''f1'', completedFile ''f2'']) \<and>
   map status (files (initialState [completedFile ''f1'', completedFile ''f2''])) = [COMPLETED, COMPLETED] \<and>
   files (processAll (scriptedEnv 0 status429 (Some ''hello'') [])
            (initialState [completedFile ''f1'', completedFile ''f2''])) =
     [completedFile ''f1'', completedFile ''f2''] \<and>
   attemptsOf (trace (processAll (scriptedEnv 0 status429 (Some ''hello'') [])
            (initialState [completedFile ''f1'', completedFile ''f2'']))) = 0 \<and>
   capturesOf (trace (processAll (scriptedEnv 0 status429 (Some ''hello'') [])
            (initialState [completedFile ''f1'', completedFile ''f2'']))) = 0"
proof -
  let ?env = "scriptedEnv 1 status429 (Some ''hello'') []"
  have idle: "\<not> isProcessing mixedFiles" by (simp add: mixedFiles_def initialState_def)
  have dist: "distinct (map file_id (files mixedFiles))"
    by (simp add: mixedFiles_def initialState_def exampleFile_def completedFile_def)
  have sts: "map status (files mixedFiles) = [COMPLETED, PENDING, COMPLETED, PENDING]"
    by (simp add: mixedFiles_def initialState_def exampleFile_def completedFile_def)
  have todo: "processedIds (trace mixedFiles) @
      map file_id (filter (\<lambda>f. status f \<noteq> COMPLETED) (files mixedFiles)) = [''f2'', ''f4'']"
    by (simp add: mixedFiles_def initialState_def exampleFile_def completedFile_def)
  have mem: "completedFile ''f1'' \<in> set (files mixedFiles)"
    by (simp add: mixedFiles_def initialState_def)
  have fin: "status (completedFile ''f1'') = COMPLETED" by (simp add: completedFile_def)
  have tr: "trace (processAll ?env mixedFiles) =
     spec_fileRun (exampleFile ''f2'' ''b.py'') 2 [ToPng (Element ''f2'')] @
     spec_fileRun (exampleFile ''f4'' ''d.py'') 1 [ToPng (Element ''f4'')]"
    by code_simp
  have fs: "files (processAll ?env mixedFiles) =
     [completedFile ''f1'',
      (exampleFile ''f2'' ''b.py'')\<lparr>status := COMPLETED, output_text := Some ''hello'',
         imageBlob := Some (Blob ''png'')\<rparr>,
      completedFile ''f3'',
      (exampleFile ''f4'' ''d.py'')\<lparr>status := COMPLETED, output_text := Some ''hello'',
         imageBlob := Some (Blob ''png'')\<rparr>]"
    by code_simp
  note t = batch_processes_unfinished_files_in_order [OF idle, of ?env]
  from t have "processedIds (trace (processAll ?env mixedFiles)) =
      processedIds (trace mixedFiles) @
      map file_id (filter (\<lambda>f. status f \<noteq> COMPLETED) (files mixedFiles))"
    by (rule conjunct1)
  with todo have ids: "processedIds (trace (processAll ?env mixedFiles)) = [''f2'', ''f4'']" by simp
  from t dist have "\<forall>f\<in>set (files mixedFiles). status f = COMPLETED \<longrightarrow>
      f \<in> set (files (processAll ?env mixedFiles))"
    by blast
  with mem fin have kept: "completedFile ''f1'' \<in> set (files (processAll ?env mixedFiles))" by blast
  let ?st = "initialState [completedFile ''f1'', completedFile ''f2'']"
  let ?env0 = "scriptedEnv 0 status429 (Some ''hello'') []"
  have idle0: "\<not> isProcessing ?st" by (simp add: initialState_def)
  have finished: "\<forall>f\<in>set (files ?st). status f = COMPLETED"
    by (simp add: initialState_def completedFile_def exampleFile_def)
  have sts0: "map status (files ?st) = [COMPLETED, COMPLETED]"
    by (simp add: initialState_def completedFile_def exampleFile_def)
  have f0: "files ?st = [completedFile ''f1'', completedFile ''f2'']"
    by (simp add: initialState_def)
  have a0: "attemptsOf (trace ?st) = 0" and c0: "capturesOf (trace ?st) = 0"
    by (simp_all add: initialState_def attemptsOf_def capturesOf_def)
  from batch_processes_unfinished_files_in_order [OF idle0, of ?env0] finished
  have "files (processAll ?env0 ?st) = files ?st"
    and "attemptsOf (trace (processAll ?env0 ?st)) = attemptsOf (trace ?st)"
    and "capturesOf (trace (processAll ?env0 ?st)) = capturesOf (trace ?st)"
    by blast+
  with f0 a0 c0 have idem: "files (processAll ?env0 ?st) = [completedFile ''f1'', completedFile ''f2'']"
    "attemptsOf (trace (processAll ?env0 ?st)) = 0" "capturesOf (trace (processAll ?env0 ?st)) = 0"
    by simp_all
  from idle dist sts ids tr kept fs idle0 sts0 idem show ?thesis by (intro conjI)
qed

text \<open>
  C5.  A batch run that starts on files with pairwise distinct ids, where the files not
  yet COMPLETED carry no image (they come from the upload or from a failed capture).
  The run keeps the list of ids and invokes \<open>processSingleFile\<close> for every unfinished
  file.  For each unfinished file \<open>f\<close>, with \<open>s\<close> the state in which the run reaches it,
  \<open>out\<close> the output generated for it there and \<open>cr\<close> what its capture step finds at
  the moment it is made: the run takes the turn of \<open>f\<close> in \<open>s\<close> and goes on with the
  files behind it, whatever \<open>cr\<close> is; \<open>out\<close> is attached with status COMPLETED before the
  capture; at the end of the run the file still carries \<open>out\<close>, and it is in ERROR with
  no image if the capture threw, COMPLETED with the captured image if it succeeded.
\<close>

theorem capture_failure_does_not_stop_batch:
  assumes idle: "\<not> isProcessing st"
    and dist: "distinct (map file_id (files st))"
    and noimg: "\<forall>f\<in>set (files st). status f \<noteq> COMPLETED \<longrightarrow> imageBlob f = None"
  shows "map file_id (files (processAll env st)) = map file_id (files st) \<and>
         processedIds (trace (processAll env st)) =
           processedIds (trace st) @ map file_id (filter (\<lambda>f. status f \<noteq> COMPLETED) (files st)) \<and>
         (\<forall>f\<in>set (files st). status f \<noteq> COMPLETED \<longrightarrow>
            (let s = stateAtTurn env st f;
                 out = generatedOutput env f (file_id f) s;
                 cr = captureResult env (captureTime env f (file_id f) s) (file_id f)
             in processAll env st =
                  (processLoop env (files st) (filesBehind st f)
                     (sleep 700 (processSingleFile env (files st) (file_id f) s)))
                  \<lparr>isProcessing := False\<rparr> \<and>
                (\<forall>h\<in>set (files (attachOutput env f (file_id f) (markRunning (file_id f) s))).
                   file_id h = file_id f \<longrightarrow> output_text h = Some out \<and> status h = COMPLETED) \<and>
                (\<exists>g\<in>set (files (processAll env st)).
                   file_id g = file_id f \<and> output_text g = Some out \<and>
                   (cr = CaptureFailed \<longrightarrow> status g = ERROR \<and> imageBlob g = None) \<and>
                   (\<forall>b. cr = Captured b \<longrightarrow> status g = COMPLETED \<and> imageBlob g = Some b) \<and>
                   (cr = NoElement \<longrightarrow> status g = COMPLETED \<and> imageBlob g = None))))"
proof (intro conjI ballI impI)
  show "map file_id (files (processAll env st)) = map file_id (files st)"
    using idle by (simp add: files_processAll map_file_id_processLoop)
  show "processedIds (trace (processAll env st)) =
           processedIds (trace st) @ map file_id (filter (\<lambda>f. status f \<noteq> COMPLETED) (files st))"
    using idle by (simp add: trace_processAll processedIds_processLoop)
next
  fix f
  assume f: "f \<in> set (files st)" and nc: "status f \<noteq> COMPLETED"
  let ?s = "stateAtTurn env st f"
  let ?out = "generatedOutput env f (file_id f) ?s"
  let ?cr = "captureResult env (captureTime env f (file_id f) ?s) (file_id f)"
  let ?g = "processedFile ?out ?cr f"
  from f nc noimg have img: "imageBlob f = None" by blast
  have turn: "processAll env st =
      (processLoop env (files st) (filesBehind st f)
         (sleep 700 (processSingleFile env (files st) (file_id f) ?s)))\<lparr>isProcessing := False\<rparr>"
    by (rule processAll_turn [OF idle dist f nc])
  have attached: "\<forall>h\<in>set (files (attachOutput env f (file_id f) (markRunning (file_id f) ?s))).
      file_id h = file_id f \<longrightarrow> output_text h = Some ?out \<and> status h = COMPLETED"
  proof (intro ballI impI)
    fix h
    assume h: "h \<in> set (files (attachOutput env f (file_id f) (markRunning (file_id f) ?s)))"
      and hi: "file_id h = file_id f"
    let ?c = "\<lambda>x. x\<lparr>status := RUNNING\<rparr>\<lparr>output_text := Some ?out, status := COMPLETED\<rparr>"
    have "files (attachOutput env f (file_id f) (markRunning (file_id f) ?s)) =
        updateFile (file_id f) ?c (files ?s)"
      by (simp add: files_attachOutput files_markRunning trace_markRunning generatedOutput_def
          updateFile_twice)
    with h have "h \<in> set (updateFile (file_id f) ?c (files ?s))" by simp
    from updateFile_member [OF this hi] obtain x where "h = ?c x" by auto
    then show "output_text h = Some ?out \<and> status h = COMPLETED" by simp
  qed
  have mem: "?g \<in> set (files (processAll env st))"
    by (rule processAll_result [OF idle dist f nc])
  have props: "file_id ?g = file_id f \<and> output_text ?g = Some ?out \<and>
       (?cr = CaptureFailed \<longrightarrow> status ?g = ERROR \<and> imageBlob ?g = None) \<and>
       (\<forall>b. ?cr = Captured b \<longrightarrow> status ?g = COMPLETED \<and> imageBlob ?g = Some b) \<and>
       (?cr = NoElement \<longrightarrow> status ?g = COMPLETED \<and> imageBlob ?g = None)"
    by (cases ?cr) (simp_all add: processedFile_def img)
  from mem props have ex: "\<exists>g\<in>set (files (processAll env st)).
       file_id g = file_id f \<and> output_text g = Some ?out \<and>
       (?cr = CaptureFailed \<longrightarrow> status g = ERROR \<and> imageBlob g = None) \<and>
       (\<forall>b. ?cr = Captured b \<longrightarrow> status g = COMPLETED \<and> imageBlob g = Some b) \<and>
       (?cr = NoElement \<longrightarrow> status g = COMPLETED \<and> imageBlob g = None)"
    by (rule bexI [rotated])
  from turn attached ex show "let s = stateAtTurn env st f;
                 out = generatedOutput env f (file_id f) s;
                 cr = captureResult env (captureTime env f (file_id f) s) (file_id f)
             in processAll env st =
                  (processLoop env (files st) (filesBehind st f)
                     (sleep 700 (processSingleFile env (files st) (file_id f) s)))
                  \<lparr>isProcessing := False\<rparr> \<and>
                (\<forall>h\<in>set (files (attachOutput env f (file_id f) (markRunning (file_id f) s))).
                   file_id h = file_id f \<longrightarrow> output_text h = Some out \<and> status h = COMPLETED) \<and>
                (\<exists>g\<in>set (files (processAll env st)).
                   file_id g = file_id f \<and> output_text g = Some out \<and>
                   (cr = CaptureFailed \<longrightarrow> status g = ERROR \<and> imageBlob g = None) \<and>
                   (\<forall>b. cr = Captured b \<longrightarrow> status g = COMPLETED \<and> imageBlob g = Some b) \<and>
                   (cr = NoElement \<longrightarrow> status g = COMPLETED \<and> imageBlob g = None))"
    unfolding Let_def by (intro conjI)
qed

theorem capture_failure_does_not_stop_batch_witness:
  "\<not> isProcessing fiveFiles \<and> distinct (map file_id (files fiveFiles)) \<and>
   exampleFile ''f3'' ''c.py'' \<in> set (files fiveFiles) \<and>
   captureResult thirdFailsEnv
     (captureTime thirdFailsEnv (exampleFile ''f3'' ''c.py'') ''f3''
        (stateAtTurn thirdFailsEnv fiveFiles (exampleFile ''f3'' ''c.py''))) ''f3'' = CaptureFailed \<and>
   (\<exists>g\<in>set (files (processAll thirdFailsEnv fiveFiles)).
      file_id g = ''f3'' \<and> output_text g = Some ''hello'' \<and> status g = ERROR \<and> imageBlob g = None) \<and>
   map status (files (processAll thirdFailsEnv fiveFiles)) =
     [COMPLETED, COMPLETED, ERROR, COMPLETED, COMPLETED] \<and>
   map imageBlob (files (processAll thirdFailsEnv fiveFiles)) =
     [Some (Blob ''png''), Some (Blob ''png''), None, Some (Blob ''png''), Some (Blob ''png'')] \<and>
   captureResult firstCaptureFailsEnv
     (captureTime firstCaptureFailsEnv (exampleFile ''f1'' ''a.py'') ''f1''
        (stateAtTurn firstCaptureFailsEnv twoFiles (exampleFile ''f1'' ''a.py''))) ''f1'' = CaptureFailed \<and>
   captureResult firstCaptureFailsEnv [ToPng (Element ''f2'')] ''f1'' = Captured (Blob ''png'') \<and>
   (\<exists>g\<in>set (files (processAll firstCaptureFailsEnv twoFiles)).
      file_id g = ''f1'' \<and> output_text g = Some ''hello'' \<and> status g = ERROR \<and> imageBlob g = None) \<and>
   map status (files (processAll firstCaptureFailsEnv twoFiles)) = [ERROR, COMPLETED]"
proof -
  let ?f3 = "exampleFile ''f3'' ''c.py''"
  let ?f1 = "exampleFile ''f1'' ''a.py''"
  have idle5: "\<not> isProcessing fiveFiles" by (simp add: fiveFiles_def initialState_def)
  have dist5: "distinct (map file_id (files fiveFiles))"
    by (simp add: fiveFiles_def initialState_def exampleFile_def)
  have noimg5: "\<forall>f\<in>set (files fiveFiles). status f \<noteq> COMPLETED \<longrightarrow> imageBlob f = None"
    by (simp add: fiveFiles_def initialState_def exampleFile_def)
  have mem5: "?f3 \<in> set (files fiveFiles)" by (simp add: fiveFiles_def initialState_def)
  have nc3: "status ?f3 \<noteq> COMPLETED" by (simp add: exampleFile_def)
  have id3: "file_id ?f3 = ''f3''" by (simp add: exampleFile_def)
  have cr5: "captureResult thirdFailsEnv
     (captureTime thirdFailsEnv ?f3 ''f3'' (stateAtTurn thirdFailsEnv fiveFiles ?f3)) ''f3''
       = CaptureFailed"
    by code_simp
  have out5: "generatedOutput thirdFailsEnv ?f3 ''f3'' (stateAtTurn thirdFailsEnv fiveFiles ?f3)
       = ''hello''"
    by code_simp
  have sts5: "map status (files (processAll thirdFailsEnv fiveFiles)) =
     [COMPLETED, COMPLETED, ERROR, COMPLETED, COMPLETED]"
    by code_simp
  have imgs5: "map imageBlob (files (processAll thirdFailsEnv fiveFiles)) =
     [Some (Blob ''png''), Some (Blob ''png''), None, Some (Blob ''png''), Some (Blob ''png'')]"
    by code_simp
  note t5 = capture_failure_does_not_stop_batch [OF idle5 dist5 noimg5, of thirdFailsEnv, unfolded Let_def]
  from t5 mem5 nc3 have "\<exists>g\<in>set (files (processAll thirdFailsEnv fiveFiles)).
       file_id g = file_id ?f3 \<and>
       output_text g = Some (generatedOutput thirdFailsEnv ?f3 (file_id ?f3) (stateAtTurn thirdFailsEnv fiveFiles ?f3)) \<and>
       (captureResult thirdFailsEnv
          (captureTime thirdFailsEnv ?f3 (file_id ?f3) (stateAtTurn thirdFailsEnv fiveFiles ?f3)) (file_id ?f3)
            = CaptureFailed \<longrightarrow> status g = ERROR \<and> imageBlob g = None) \<and>
       (\<forall>b. captureResult thirdFailsEnv
          (captureTime thirdFailsEnv ?f3 (file_id ?f3) (stateAtTurn thirdFailsEnv fiveFiles ?f3)) (file_id ?f3)
            = Captured b \<longrightarrow> status g = COMPLETED \<and> imageBlob g = Some b) \<and>
       (captureResult thirdFailsEnv
          (captureTime thirdFailsEnv ?f3 (file_id ?f3) (stateAtTurn thirdFailsEnv fiveFiles ?f3)) (file_id ?f3)
            = NoElement \<longrightarrow> status g = COMPLETED \<and> imageBlob g = None)"
    by blast
  then have ex5: "\<exists>g\<in>set (files (processAll thirdFailsEnv fiveFiles)).
      file_id g = ''f3'' \<and> output_text g = Some ''hello'' \<and> status g = ERROR \<and> imageBlob g = None"
    unfolding id3 cr5 out5 by blast
  have idle2: "\<not> isProcessing twoFiles" by (simp add: twoFiles_def initialState_def)
  have dist2: "distinct (map file_id (files twoFiles))"
    by (simp add: twoFiles_def initialState_def exampleFile_def)
  have noimg2: "\<forall>f\<in>set (files twoFiles). status f \<noteq> COMPLETED \<longrightarrow> imageBlob f = None"
    by (simp add: twoFiles_def initialState_def exampleFile_def)
  have mem2: "?f1 \<in> set (files twoFiles)" by (simp add: twoFiles_def initialState_def)
  have nc1: "status ?f1 \<noteq> COMPLETED" by (simp add: exampleFile_def)
  have id1: "file_id ?f1 = ''f1''" by (simp add: exampleFile_def)
  have cr2: "captureResult firstCaptureFailsEnv
     (captureTime firstCaptureFailsEnv ?f1 ''f1'' (stateAtTurn firstCaptureFailsEnv twoFiles ?f1)) ''f1''
       = CaptureFailed"
    by code_simp
  have other: "captureResult firstCaptureFailsEnv [ToPng (Element ''f2'')] ''f1'' = Captured (Blob ''png'')"
    by code_simp
  have out2: "generatedOutput firstCaptureFailsEnv ?f1 ''f1'' (stateAtTurn firstCaptureFailsEnv twoFiles ?f1)
       = ''hello''"
    by code_simp
  have sts2: "map status (files (processAll firstCaptureFailsEnv twoFiles)) = [ERROR, COMPLETED]"
    by code_simp
  note t2 = capture_failure_does_not_stop_batch [OF idle2 dist2 noimg2, of firstCaptureFailsEnv, unfolded Let_def]
  from t2 mem2 nc1 have "\<exists>g\<in>set (files (processAll firstCaptureFailsEnv twoFiles)).
       file_id g = file_id ?f1 \<and>
       output_text g = Some (generatedOutput firstCaptureFailsEnv ?f1 (file_id ?f1) (stateAtTurn firstCaptureFailsEnv twoFiles ?f1)) \<and>
       (captureResult firstCaptureFailsEnv
          (captureTime firstCaptureFailsEnv ?f1 (file_id ?f1) (stateAtTurn firstCaptureFailsEnv twoFiles ?f1)) (file_id ?f1)
            = CaptureFailed \<longrightarrow> status g = ERROR \<and> imageBlob g = None) \<and>
       (\<forall>b. captureResult firstCaptureFailsEnv
          (captureTime firstCaptureFailsEnv ?f1 (file_id ?f1) (stateAtTurn firstCaptureFailsEnv twoFiles ?f1)) (file_id ?f1)
            = Captured b \<longrightarrow> status g = COMPLETED \<and> imageBlob g = Some b) \<and>
       (captureResult firstCaptureFailsEnv
          (captureTime firstCaptureFailsEnv ?f1 (file_id ?f1) (stateAtTurn firstCaptureFailsEnv twoFiles ?f1)) (file_id ?f1)
            = NoElement \<longrightarrow> status g = COMPLETED \<and> imageBlob g = None)"
    by blast
  then have ex2: "\<exists>g\<in>set (files (processAll firstCaptureFailsEnv twoFiles)).
      file_id g = ''f1'' \<and> output_text g = Some ''hello'' \<and> status g = ERROR \<and> imageBlob g = None"
    unfolding id1 cr2 out2 by blast
  from idle5 dist5 mem5 cr5 ex5 sts5 imgs5 cr2 other ex2 sts2 show ?thesis by (intro conjI)
qed

text \<open>
  C10.  \<open>processSingleFile\<close> on a file of the captured list that carries no image (as
  every file that was never captured).  If no element is registered for the file id
  when the capture step looks it up, no capture is made, and the file ends COMPLETED
  with the generated output attached and no image.  Whatever the capture step finds,
  the file ends in ERROR only if an element was registered and its capture threw.
\<close>

theorem missing_render_target_skips_capture:
  assumes found: "find (\<lambda>f. file_id f = fileId) snapshot = Some file"
    and noimg: "\<forall>f\<in>set (files st). file_id f = fileId \<longrightarrow> imageBlob f = None"
  shows "(terminalRefs env (captureTime env file fileId st) fileId = None \<longrightarrow>
            capturesOf (trace (processSingleFile env snapshot fileId st)) = capturesOf (trace st) \<and>
            (\<forall>g\<in>set (files (processSingleFile env snapshot fileId st)). file_id g = fileId \<longrightarrow>
               status g = COMPLETED \<and>
               output_text g = Some (generatedOutput env file fileId st) \<and>
               imageBlob g = None)) \<and>
         (\<forall>g\<in>set (files (processSingleFile env snapshot fileId st)).
            file_id g = fileId \<and> status g = ERROR \<longrightarrow>
              captureResult env (captureTime env file fileId st) fileId = CaptureFailed)"
proof -
  let ?cr = "captureResult env (captureTime env file fileId st) fileId"
  let ?out = "generatedOutput env file fileId st"
  have shape: "\<exists>f\<in>set (files st). file_id f = fileId \<and> g = processedFile ?out ?cr f"
    if g: "g \<in> set (files (processSingleFile env snapshot fileId st))" and gi: "file_id g = fileId" for g
  proof -
    from g have "g \<in> set (updateFile fileId (processedFile ?out ?cr) (files st))"
      by (simp add: files_processSingleFile [OF found])
    from updateFile_member [OF this gi] show ?thesis by simp
  qed
  show ?thesis
  proof (intro conjI impI ballI)
    assume none: "terminalRefs env (captureTime env file fileId st) fileId = None"
    then show "capturesOf (trace (processSingleFile env snapshot fileId st)) = capturesOf (trace st)"
      by (simp add: trace_processSingleFile [OF found] captureTime_def capturesOf_append
          capturesOf_generateOutput) (simp add: capturesOf_def)
  next
    fix g
    assume none: "terminalRefs env (captureTime env file fileId st) fileId = None"
      and g: "g \<in> set (files (processSingleFile env snapshot fileId st))" and gi: "file_id g = fileId"
    from none have cr: "?cr = NoElement" by (simp add: captureResult_def)
    from shape [OF g gi] obtain f where f: "f \<in> set (files st)" "file_id f = fileId"
      "g = processedFile ?out ?cr f" by blast
    from f(1,2) noimg have "imageBlob f = None" by blast
    with f(3) cr show "status g = COMPLETED" and "output_text g = Some ?out" and "imageBlob g = None"
      by (simp_all add: processedFile_def)
  next
    fix g
    assume g: "g \<in> set (files (processSingleFile env snapshot fileId st))"
      and gi: "file_id g = fileId \<and> status g = ERROR"
    from shape [OF g] gi obtain f where f: "g = processedFile ?out ?cr f" by blast
    with gi show "?cr = CaptureFailed"
      by (cases ?cr) (simp_all add: processedFile_def)
  qed
qed

theorem missing_render_target_skips_capture_witness:
  "terminalRefs noElementEnv
     (captureTime noElementEnv (exampleFile ''f1'' ''a.py'') ''f1'' (initialState [exampleFile ''f1'' ''a.py''])) ''f1'' = None \<and>
   files (processSingleFile noElementEnv [exampleFile ''f1'' ''a.py''] ''f1'' (initialState [exampleFile ''f1'' ''a.py''])) =
     [(exampleFile ''f1'' ''a.py'')\<lparr>status := COMPLETED, output_text := Some ''hello''\<rparr>] \<and>
   capturesOf (trace (processSingleFile noElementEnv [exampleFile ''f1'' ''a.py''] ''f1''
        (initialState [exampleFile ''f1'' ''a.py'']))) = 0"
proof -
  let ?file = "exampleFile ''f1'' ''a.py''"
  let ?st = "initialState [?file]"
  have found: "find (\<lambda>f. file_id f = ''f1'') [?file] = Some ?file" by code_simp
  have noimg: "\<forall>f\<in>set (files ?st). file_id f = ''f1'' \<longrightarrow> imageBlob f = None"
    by (simp add: initialState_def exampleFile_def)
  have none: "terminalRefs noElementEnv (captureTime noElementEnv ?file ''f1'' ?st) ''f1'' = None"
    by (simp add: noElementEnv_def)
  have fs: "files (processSingleFile noElementEnv [?file] ''f1'' ?st) =
     [?file\<lparr>status := COMPLETED, output_text := Some ''hello''\<rparr>]"
    by code_simp
  have c0: "capturesOf (trace ?st) = 0" by (simp add: initialState_def capturesOf_def)
  note t = missing_render_target_skips_capture [OF found noimg, of noElementEnv]
  from t none have "capturesOf (trace (processSingleFile noElementEnv [?file] ''f1'' ?st)) = capturesOf (trace ?st)"
    and "\<forall>g\<in>set (files (processSingleFile noElementEnv [?file] ''f1'' ?st)). file_id g = ''f1'' \<longrightarrow>
               status g = COMPLETED \<and>
               output_text g = Some (generatedOutput noElementEnv ?file ''f1'' ?st) \<and>
               imageBlob g = None"
    by blast+
  with none fs c0 show ?thesis by simp
qed

section \<open>The naming engine: extension placeholder\<close>

text \<open>
  C7.  The claim: \<open>[ext]\<close> is replaced by the text behind the last dot of the file name,
  and by the empty string when the name has no dot.  On the code the second half
  fails: \<open>split\<close> of a name without a dot has the whole name as its only segment, so
  \<open>[ext]\<close> becomes the whole name.  The theorem evaluates \<open>formatName\<close> at the name
  \<open>noext\<close>, which has no dot.
\<close>

theorem formatName_ext_of_dotless_name:
  "\<not> includes_str ''noext'' ''.'' \<and>
   formatName beyond defaultConfig ''[ext]'' (exampleFile ''f1'' ''noext'') 0 = ''noext''"
  by code_simp

section \<open>The naming engine: the index placeholder\<close>




section \<open>The naming engine: patterns without an index placeholder\<close>

text \<open>
  C8.  The claim: for a pattern that does not contain \<open>[index]\<close> the result of
  \<open>formatName\<close> is the same for every index, start index and numbering switch.  On
  the code this fails when the file name carries the text \<open>[index]\<close>: \<open>[name]\<close>,
  \<open>[ext]\<close> and \<open>[full]\<close> are replaced first, and the index step works on what they
  produced.  The pattern \<open>[name]\<close> has no \<open>[index]\<close>; for the file \<open>[index].py\<close> it
  gives \<open>1\<close> at index 0 and \<open>2\<close> at index 1.
\<close>

theorem formatName_index_from_file_name:
  "\<not> includes_str ''[name]'' ''[index]'' \<and>
   formatName decimal defaultConfig ''[name]'' (exampleFile ''f1'' ''[index].py'') 0 = ''1'' \<and>
   formatName decimal defaultConfig ''[name]'' (exampleFile ''f1'' ''[index].py'') 1 = ''2''"
  by code_simp

text \<open>
  C8, as amended.  When neither the pattern nor the text that the replacement of
  \<open>[name]\<close>, \<open>[ext]\<close> and \<open>[full]\<close> makes of it contains \<open>[index]\<close>, the result of
  \<open>formatName\<close> is that text, whatever the index, the start index, the numbering
  switch and the other settings are: two runs that agree on the pattern and the file
  give the same name.
\<close>

theorem formatName_without_index:
  assumes "\<not> includes_str pattern ''[index]''"
    and "\<not> includes_str (substNames pattern file) ''[index]''"
  shows "formatName beyond cfg pattern file index = formatName beyond' cfg' pattern file index' \<and>
         formatName beyond cfg pattern file index = substNames pattern file"
proof -
  have "formatName b c pattern file i = substNames pattern file" for b c i
    unfolding formatName_def replaceIndex_def
    using assms(2) by (simp add: replaceAll_no_match)
  then show ?thesis by simp
qed

theorem formatName_without_index_witness:
  "\<not> includes_str ''[name]_output'' ''[index]'' \<and>
   \<not> includes_str (substNames ''[name]_output'' (exampleFile ''f1'' ''a.py'')) ''[index]'' \<and>
   formatName decimal defaultConfig ''[name]_output'' (exampleFile ''f1'' ''a.py'') 0 =
     formatName decimal (defaultConfig\<lparr>startIndex := 7, isNumberingEnabled := False\<rparr>)
       ''[name]_output'' (exampleFile ''f1'' ''a.py'') 5 \<and>
   formatName decimal defaultConfig ''[name]_output'' (exampleFile ''f1'' ''a.py'') 0 = ''a_output''"
proof -
  have h1: "\<not> includes_str ''[name]_output'' ''[index]''"
    by code_simp
  have h2: "\<not> includes_str (substNames ''[name]_output'' (exampleFile ''f1'' ''a.py'')) ''[index]''"
    by code_simp
  have v: "substNames ''[name]_output'' (exampleFile ''f1'' ''a.py'') = ''a_output''"
    by code_simp
  note t = formatName_without_index [OF h1 h2, of decimal defaultConfig 0 decimal
      "defaultConfig\<lparr>startIndex := 7, isNumberingEnabled := False\<rparr>" 5]
  note e1 = t [THEN conjunct1] and e2 = t [THEN conjunct2, unfolded v]
  from h1 h2 e1 e2 show ?thesis by (intro conjI)
qed

end
